theory Spec2Isabelle
  imports Main
begin

section \<open>The exploration driver of Nidhugg (DPORDriver.cpp)\<close>

text \<open>
  The driver owns the parsed module and repeats ``execute the program once, ask the
  trace builder whether another schedule remains''. The interpreter, the trace builder,
  the IR parser, the module checker and the SIGSEGV handler are collaborators whose code
  lives elsewhere; they are taken as parameters (record \<open>collaborators\<close>), so every
  theorem below holds for whatever they compute.
\<close>

subsection \<open>Data\<close>

text \<open>The enumeration \<open>Configuration::MemoryModel\<close>; \<open>MM_UNDEF\<close> stands for every value
  that reaches the \<open>default\<close> branch of the two \<open>switch\<close> statements.\<close>

datatype MemoryModel = MM_UNDEF | SC | TSO

text \<open>The members of \<open>Configuration\<close> that DPORDriver.cpp reads.\<close>

record Configuration =
  memory_model :: MemoryModel
  check_robustness :: bool
  debug_collect_all_traces :: bool
  explore_all_traces :: bool

text \<open>
  Modelled from the spec: class \<open>Trace\<close> (Trace.h is not among the sources). The spec
  describes it as the ordered sequence of events of one run plus the errors found; the
  driver builds the empty one as \<open>Trace t({},{},{})\<close>, three empty sequences, and
  \<open>has_errors\<close> says whether the sequence of errors is non-empty.
\<close>

record Trace =
  computation :: "nat list"
  computation_md :: "nat list"
  errors :: "string list"

definition empty_Trace :: Trace where
  "empty_Trace = \<lparr>computation = [], computation_md = [], errors = []\<rparr>"

definition has_errors :: "Trace \<Rightarrow> bool" where
  "has_errors t = (errors t \<noteq> [])"

text \<open>
  Modelled from the spec: class \<open>DPORDriver::Result\<close> (DPORDriver.h is not among the
  sources): the discovered-behaviour count, the sleepset-blocked count, the error trace
  and, optionally, every trace. A default-constructed Result has both counts zero, the
  empty error trace and no collected traces.
\<close>

record Result =
  trace_count :: int
  sleepset_blocked_trace_count :: int
  error_trace :: Trace
  all_traces :: "Trace list"

definition new_Result :: Result where
  "new_Result = \<lparr>trace_count = 0, sleepset_blocked_trace_count = 0,
                  error_trace = empty_Trace, all_traces = []\<rparr>"

definition res_has_errors :: "Result \<Rightarrow> bool" where
  "res_has_errors res = has_errors (error_trace res)"

text \<open>What the driver reads of an \<open>llvm::Module\<close>: its data layout string and the names
  of its functions.\<close>

record Module =
  data_layout :: string
  function_names :: "string list"

text \<open>
  Ways in which a call does not return normally: a thrown \<open>std::logic_error\<close> with its
  message, the \<open>std::length_error\<close> that \<open>resize\<close> throws in \<open>read_file\<close>, and the two
  undefined behaviours the driver's own code can reach, overflow of a C++ \<open>int\<close> counter
  and a member call through the null \<open>mod\<close> pointer.
\<close>

datatype error = Logic_error string | Length_error | Signed_overflow | Null_dereference

text \<open>
  What \<open>std::ifstream\<close> finds under a name: a regular file with its content, or a
  directory, which opens but has no size, so that \<open>tellg()\<close> answers \<open>-1\<close>.
\<close>

datatype fs_entry = Regular string | Directory

text \<open>The calls the driver makes, in the order it makes them; a call whose answer
  steers the driver carries that answer.\<close>

datatype call =
    Call_reparse
  | Call_new_TSOTraceBuilder
  | Call_setup_signal_handler
  | Call_reset_signal_handler
  | Call_run_once
  | Call_create_EE
  | Call_runStaticConstructorsDestructors bool
  | Call_getPointerToFunction
  | Call_runFunctionAsMain
  | Call_checkForCycles
  | Call_getTrace
  | Call_delete_EE
  | Ret_run_once Trace
  | Call_sleepset_is_empty bool
  | Call_reset bool
  | Call_delete_TB

text \<open>
  The collaborators. \<open>'ee\<close> is the state of an execution engine, \<open>'tb\<close> the state of the
  trace builder; an engine holds a reference to the trace builder it was created with, so
  the engine's operations act on the pair. \<open>Interpreter_create\<close> answers \<open>Inl msg\<close>
  when it returns the null pointer, with \<open>msg\<close> the content of \<open>ErrorMsg\<close>.
\<close>

record ('ee, 'tb) collaborators =
  files :: "string \<Rightarrow> fs_entry option"
  ParseIR :: "string \<Rightarrow> Module option"
  IsLittleEndianHost :: bool
  check_functions :: "Module option \<Rightarrow> string option"
  new_TSOTraceBuilder :: "Configuration \<Rightarrow> 'tb"
  Interpreter_create :: "Module option \<Rightarrow> 'tb \<Rightarrow> Configuration \<Rightarrow> string + 'ee"
  TSOInterpreter_create :: "Module option \<Rightarrow> 'tb \<Rightarrow> Configuration \<Rightarrow> string + 'ee"
  runStaticConstructorsDestructors :: "bool \<Rightarrow> 'ee \<times> 'tb \<Rightarrow> 'ee \<times> 'tb"
  getPointerToFunction :: "string \<Rightarrow> 'ee \<times> 'tb \<Rightarrow> 'ee \<times> 'tb"
  runFunctionAsMain :: "string \<Rightarrow> string list \<Rightarrow> 'ee \<times> 'tb \<Rightarrow> 'ee \<times> 'tb"
  checkForCycles :: "'ee \<times> 'tb \<Rightarrow> 'ee \<times> 'tb"
  getTrace :: "'ee \<times> 'tb \<Rightarrow> Trace"
  has_error :: "'tb \<Rightarrow> bool"
  sleepset_is_empty :: "'tb \<Rightarrow> bool"
  reset :: "'tb \<Rightarrow> bool \<times> 'tb"

text \<open>
  The state the driver works on: the members of the \<open>DPORDriver\<close> object (\<open>conf\<close>,
  \<open>src\<close> and the pointer \<open>mod\<close>, here \<open>modl\<close>, \<open>None\<close> for null), whether the SIGSEGV
  handler is installed, and the calls made so far.
\<close>

record state =
  conf :: Configuration
  src :: string
  modl :: "Module option"
  handler_installed :: bool
  calls :: "call list"

definition log :: "call list \<Rightarrow> state \<Rightarrow> state" where
  "log cs d = d\<lparr>calls := calls d @ cs\<rparr>"

subsection \<open>C++ int counters\<close>

definition INT_MAX :: int where
  "INT_MAX = 2147483647"

text \<open>\<open>x + 1\<close> and \<open>++x\<close> on an \<open>int\<close>: defined below \<open>INT_MAX\<close>, undefined at it.\<close>

definition incr :: "int \<Rightarrow> error + int" where
  "incr x = (if x < INT_MAX then Inr (x + 1) else Inl Signed_overflow)"

subsection \<open>Loading the module\<close>

text \<open>\<open>read_file\<close> checks that the stream opened and nothing after that: on a
  directory \<open>tgt.resize(is.tellg())\<close> asks for a string of the size \<open>-1\<close> converted to
  \<open>size_t\<close> and throws.\<close>

definition read_file :: "('ee, 'tb) collaborators \<Rightarrow> string \<Rightarrow> error + string" where
  "read_file E filename =
     (case files E filename of
        None \<Rightarrow> Inl (Logic_error ''Failed to read assembly file.'')
      | Some Directory \<Rightarrow> Inl Length_error
      | Some (Regular tgt) \<Rightarrow> Inr tgt)"

definition reparse :: "('ee, 'tb) collaborators \<Rightarrow> state \<Rightarrow> (error + unit) \<times> state" where
  "reparse E d =
     (let d1 = log [Call_reparse] d in
      case ParseIR E (src d) of
        None \<Rightarrow> (Inl (Logic_error ''Failed to parse assembly.''), d1\<lparr>modl := None\<rparr>)
      | Some m \<Rightarrow>
          (Inr (),
           d1\<lparr>modl := Some (if data_layout m = []
                             then (if IsLittleEndianHost E then m\<lparr>data_layout := ''e''\<rparr>
                                   else m\<lparr>data_layout := ''E''\<rparr>)
                             else m)\<rparr>))"

text \<open>\<open>CheckModule::check_functions(driver->mod)\<close> throws when the module uses
  something the interpreter does not support; \<open>Some msg\<close> is that exception.\<close>

definition CheckModule_check_functions ::
  "('ee, 'tb) collaborators \<Rightarrow> state \<Rightarrow> (error + unit) \<times> state" where
  "CheckModule_check_functions E d =
     (case check_functions E (modl d) of
        Some msg \<Rightarrow> (Inl (Logic_error msg), d)
      | None \<Rightarrow> (Inr (), d))"

text \<open>The constructor leaves \<open>mod\<close> null; the handler and the record of calls belong to
  the process and are taken over from \<open>w\<close>.\<close>

definition new_DPORDriver :: "Configuration \<Rightarrow> state \<Rightarrow> state" where
  "new_DPORDriver C w = w\<lparr>conf := C, src := [], modl := None\<rparr>"

definition parseIR ::
  "('ee, 'tb) collaborators \<Rightarrow> string \<Rightarrow> Configuration \<Rightarrow> state \<Rightarrow> (error + unit) \<times> state" where
  "parseIR E llvm_asm C w =
     (let driver = (new_DPORDriver C w)\<lparr>src := llvm_asm\<rparr> in
      case reparse E driver of
        (Inl e, d1) \<Rightarrow> (Inl e, d1)
      | (Inr u, d1) \<Rightarrow> CheckModule_check_functions E d1)"

definition parseIRFile ::
  "('ee, 'tb) collaborators \<Rightarrow> string \<Rightarrow> Configuration \<Rightarrow> state \<Rightarrow> (error + unit) \<times> state" where
  "parseIRFile E filename C w =
     (let driver = new_DPORDriver C w in
      case read_file E filename of
        Inl e \<Rightarrow> (Inl e, driver)
      | Inr tgt \<Rightarrow>
          (case reparse E (driver\<lparr>src := tgt\<rparr>) of
             (Inl e, d1) \<Rightarrow> (Inl e, d1)
           | (Inr u, d1) \<Rightarrow> CheckModule_check_functions E d1))"

subsection \<open>One run\<close>

text \<open>The \<open>switch\<close> that creates the execution engine. \<open>Inr (Inl ErrorMsg)\<close> is the
  null pointer together with the content of \<open>ErrorMsg\<close>.\<close>

definition create_EE ::
  "('ee, 'tb) collaborators \<Rightarrow> 'tb \<Rightarrow> state \<Rightarrow> error + (string + 'ee)" where
  "create_EE E TB d =
     (case memory_model (conf d) of
        SC \<Rightarrow> Inr (Interpreter_create E (modl d) TB (conf d))
      | TSO \<Rightarrow> Inr (TSOInterpreter_create E (modl d) TB (conf d))
      | MM_UNDEF \<Rightarrow> Inl (Logic_error ''DPORDriver: Unsupported memory model.''))"

text \<open>\<open>run_once\<close> answers the trace and leaves the trace builder changed by the run.
  Setting \<open>errno\<close> and building the empty environment have no part in what follows and are
  left out.\<close>

definition run_once ::
  "('ee, 'tb) collaborators \<Rightarrow> 'tb \<Rightarrow> state \<Rightarrow> (error + Trace \<times> 'tb) \<times> state" where
  "run_once E TB d =
     (let d0 = log [Call_run_once] d in
      case create_EE E TB d of
        Inl e \<Rightarrow> (Inl e, d0)
      | Inr (Inl ErrorMsg) \<Rightarrow>
          (if ErrorMsg \<noteq> []
           then (Inl (Logic_error (''Error creating EE: '' @ ErrorMsg)), log [Call_create_EE] d0)
           else (Inl (Logic_error ''Unknown error creating EE!''), log [Call_create_EE] d0))
      | Inr (Inr EE) \<Rightarrow>
          (let d1 = log [Call_create_EE] d0 in
           case modl d of
             None \<Rightarrow> (Inl Null_dereference, d1)
           | Some m \<Rightarrow>
               if ''main'' \<notin> set (function_names m)
               then (Inl (Logic_error ''No main function found in module.''), d1)
               else
                 (let p1 = runStaticConstructorsDestructors E False (EE, TB);
                      p2 = getPointerToFunction E ''main'' p1;
                      p3 = runFunctionAsMain E ''main'' [''prog''] p2;
                      p4 = runStaticConstructorsDestructors E True p3;
                      d2 = log [Call_runStaticConstructorsDestructors False,
                                Call_getPointerToFunction, Call_runFunctionAsMain,
                                Call_runStaticConstructorsDestructors True] d1;
                      p5 = (if check_robustness (conf d) then checkForCycles E p4 else p4);
                      d3 = (if check_robustness (conf d) then log [Call_checkForCycles] d2 else d2);
                      t = (if has_error E (snd p5) \<or> debug_collect_all_traces (conf d)
                           then getTrace E p5 else empty_Trace);
                      d4 = (if has_error E (snd p5) \<or> debug_collect_all_traces (conf d)
                            then log [Call_getTrace] d3 else d3)
                  in (Inr (t, snd p5), log [Call_delete_EE, Ret_run_once t] d4))))"

subsection \<open>The exploration loop\<close>

text \<open>
  One pass through the body of the \<open>do \<dots> while(TB->reset())\<close> loop of \<open>run\<close>, followed
  by the loop condition unless the body left through \<open>break\<close>. The answer \<open>Inr (again, \<dots>)\<close>
  says whether the loop goes round again. \<open>(computation_count+1) % 1000 == 0\<close> holds
  exactly when 1000 divides \<open>computation_count+1\<close>, whatever the sign.
\<close>

definition loop_pass ::
  "('ee, 'tb) collaborators \<Rightarrow> Result \<times> 'tb \<times> int \<Rightarrow> state \<Rightarrow>
     (error + bool \<times> Result \<times> 'tb \<times> int) \<times> state" where
  "loop_pass E loc d =
     (case loc of (res, TB, computation_count) \<Rightarrow>
     (case incr computation_count of
        Inl e \<Rightarrow> (Inl e, d)
      | Inr c1 \<Rightarrow>
     (case (if c1 mod 1000 = 0 then reparse E d else (Inr (), d)) of
        (Inl e, d1) \<Rightarrow> (Inl e, d1)
      | (Inr u, d1) \<Rightarrow>
     (case run_once E TB d1 of
        (Inl e, d2) \<Rightarrow> (Inl e, d2)
      | (Inr (t, TB2), d2) \<Rightarrow>
     (let res1 = (if debug_collect_all_traces (conf d)
                  then res\<lparr>all_traces := all_traces res @ [t]\<rparr> else res);
          d3 = log [Call_sleepset_is_empty (sleepset_is_empty E TB2)] d2
      in
     (case (if sleepset_is_empty E TB2
            then map_sum id (\<lambda>n. res1\<lparr>trace_count := n\<rparr>) (incr (trace_count res1))
            else map_sum id (\<lambda>n. res1\<lparr>sleepset_blocked_trace_count := n\<rparr>)
                   (incr (sleepset_blocked_trace_count res1))) of
        Inl e \<Rightarrow> (Inl e, d3)
      | Inr res2 \<Rightarrow>
     (case incr computation_count of
        Inl e \<Rightarrow> (Inl e, d3)
      | Inr computation_count2 \<Rightarrow>
     (let res3 = (if has_errors t \<and> \<not> res_has_errors res2
                  then res2\<lparr>error_trace := t\<rparr> else res2)
      in
      if has_errors t \<and> \<not> explore_all_traces (conf d)
      then (Inr (False, res3, TB2, computation_count2), d3)
      else (case reset E TB2 of
              (again, TB3) \<Rightarrow>
                (Inr (again, res3, TB3, computation_count2),
                 log [Call_reset again] d3))))))))))"

text \<open>The loop, with fuel: \<open>None\<close> says that \<open>fuel\<close> passes did not end it.\<close>

fun run_loop ::
  "nat \<Rightarrow> ('ee, 'tb) collaborators \<Rightarrow> Result \<times> 'tb \<times> int \<Rightarrow> state \<Rightarrow>
     ((error + Result \<times> 'tb) \<times> state) option" where
  "run_loop 0 E loc d = None"
| "run_loop (Suc fuel) E loc d =
     (case loop_pass E loc d of
        (Inl e, d1) \<Rightarrow> Some (Inl e, d1)
      | (Inr (again, res, TB, computation_count), d1) \<Rightarrow>
          if again then run_loop fuel E (res, TB, computation_count) d1
          else Some (Inr (res, TB), d1))"

definition run ::
  "nat \<Rightarrow> ('ee, 'tb) collaborators \<Rightarrow> state \<Rightarrow> ((error + Result) \<times> state) option" where
  "run fuel E d =
     (case (case memory_model (conf d) of
              SC \<Rightarrow> Inr (new_TSOTraceBuilder E (conf d))
            | TSO \<Rightarrow> Inr (new_TSOTraceBuilder E (conf d))
            | MM_UNDEF \<Rightarrow> Inl (Logic_error ''DPORDriver: Unsupported memory model.'')) of
        Inl e \<Rightarrow> Some (Inl e, d)
      | Inr TB \<Rightarrow>
          (let d1 = (log [Call_new_TSOTraceBuilder, Call_setup_signal_handler] d)
                      \<lparr>handler_installed := True\<rparr>
           in case run_loop fuel E (new_Result, TB, 0) d1 of
                None \<Rightarrow> None
              | Some (Inl e, d2) \<Rightarrow> Some (Inl e, d2)
              | Some (Inr (res, TB2), d2) \<Rightarrow>
                  Some (Inr res,
                        (log [Call_reset_signal_handler, Call_delete_TB] d2)
                          \<lparr>handler_installed := False\<rparr>)))"

subsection \<open>Reading the record of calls\<close>

text \<open>The calls made between two states.\<close>

definition calls_since :: "state \<Rightarrow> state \<Rightarrow> call list" where
  "calls_since d d' = drop (length (calls d)) (calls d')"

text \<open>The traces that the completed runs returned, in order.\<close>

fun returned_traces :: "call list \<Rightarrow> Trace list" where
  "returned_traces [] = []"
| "returned_traces (Ret_run_once t # cs) = t # returned_traces cs"
| "returned_traces (c # cs) = returned_traces cs"

text \<open>What follows the return of the first run whose trace has errors, if there is
  one.\<close>

fun after_first_error :: "call list \<Rightarrow> call list option" where
  "after_first_error [] = None"
| "after_first_error (Ret_run_once t # cs) =
     (if has_errors t then Some cs else after_first_error cs)"
| "after_first_error (c # cs) = after_first_error cs"

text \<open>The answers of \<open>reset\<close>, in order.\<close>

fun reset_answers :: "call list \<Rightarrow> bool list" where
  "reset_answers [] = []"
| "reset_answers (Call_reset b # cs) = b # reset_answers cs"
| "reset_answers (c # cs) = reset_answers cs"

text \<open>The first trace with errors of a list of traces, the empty trace if there is
  none.\<close>

definition first_erroneous :: "Trace list \<Rightarrow> Trace" where
  "first_erroneous ts = (case find has_errors ts of None \<Rightarrow> empty_Trace | Some t \<Rightarrow> t)"

text \<open>
  Walking through the calls with the number \<open>k\<close> of runs begun so far and the flag
  \<open>f\<close>, ``the call just before was \<open>reparse\<close>'': the run that follows \<open>k\<close> runs comes right
  after a \<open>reparse\<close> exactly when 1000 divides \<open>k + 1\<close>, and a \<open>reparse\<close> is followed by
  nothing but a run.
\<close>

fun reparse_pattern :: "int \<Rightarrow> bool \<Rightarrow> call list \<Rightarrow> bool" where
  "reparse_pattern k f [] = (\<not> f)"
| "reparse_pattern k f (c # cs) =
     (if c = Call_run_once
      then (f \<longleftrightarrow> (k + 1) mod 1000 = 0) \<and> reparse_pattern (k + 1) False cs
      else \<not> f \<and> reparse_pattern k (c = Call_reparse) cs)"

text \<open>The data layout that \<open>reparse\<close> gives a module that has none.\<close>

definition default_data_layout :: "('ee, 'tb) collaborators \<Rightarrow> Module \<Rightarrow> Module" where
  "default_data_layout E m =
     (if data_layout m = []
      then m\<lparr>data_layout := (if IsLittleEndianHost E then ''e'' else ''E'')\<rparr> else m)"

text \<open>
  The order of runs and calls of \<open>reset\<close>. A run is due at the start and after every
  \<open>reset\<close> that answered true, and only then; a \<open>reset\<close> comes only after a run; after a
  \<open>reset\<close> that answered false neither a run nor a \<open>reset\<close> follows; the calls do not end
  while a run is due.
\<close>

datatype phase = Run_due | Ran | Exhausted

fun well_scheduled :: "phase \<Rightarrow> call list \<Rightarrow> bool" where
  "well_scheduled p [] = (p \<noteq> Run_due)"
| "well_scheduled p (c # cs) =
     (if c = Call_run_once then p = Run_due \<and> well_scheduled Ran cs
      else if c = Call_reset True then p = Ran \<and> well_scheduled Run_due cs
      else if c = Call_reset False then p = Ran \<and> well_scheduled Exhausted cs
      else well_scheduled p cs)"

text \<open>
  The step of the trace builder from the start of one pass of the loop to the start of
  the next: a run that reaches its end, then a \<open>reset\<close> that answers true. The module is
  the one the driver holds or the one \<open>reparse\<close> builds from its source. A chain of \<open>n\<close>
  such steps from a trace builder \<open>TB\<close> is \<open>n\<close> runs in a row, each followed by a \<open>reset\<close>
  that answers true; that there is none says that, starting from \<open>TB\<close>, the loop is over
  after \<open>n\<close> runs at the latest.
\<close>

definition next_schedule :: "('ee, 'tb) collaborators \<Rightarrow> state \<Rightarrow> ('tb \<times> 'tb) set" where
  "next_schedule E d0 =
     {(TB3, TB). \<exists>d t TB2 d2.
        conf d = conf d0 \<and> src d = src d0 \<and>
        (modl d = modl d0 \<or> modl d = modl (snd (reparse E d0))) \<and>
        run_once E TB d = (Inr (t, TB2), d2) \<and>
        (has_errors t \<longrightarrow> explore_all_traces (conf d0)) \<and>
        reset E TB2 = (True, TB3)}"

text \<open>The engine and the trace builder once the static constructors, \<open>main\<close> and the
  static destructors have run, from an engine \<open>EE\<close> created on the trace builder \<open>TB\<close>.\<close>

definition executed :: "('ee, 'tb) collaborators \<Rightarrow> 'ee \<Rightarrow> 'tb \<Rightarrow> 'ee \<times> 'tb" where
  "executed E EE TB =
     runStaticConstructorsDestructors E True
       (runFunctionAsMain E ''main'' [''prog'']
          (getPointerToFunction E ''main''
             (runStaticConstructorsDestructors E False (EE, TB))))"

text \<open>The calls of a run that reaches its end; \<open>err\<close> is the answer of
  \<open>TB.has_error()\<close> at that point.\<close>

definition completed_run_calls :: "Configuration \<Rightarrow> bool \<Rightarrow> Trace \<Rightarrow> call list" where
  "completed_run_calls C err t =
     [Call_run_once, Call_create_EE, Call_runStaticConstructorsDestructors False,
      Call_getPointerToFunction, Call_runFunctionAsMain,
      Call_runStaticConstructorsDestructors True]
     @ (if check_robustness C then [Call_checkForCycles] else [])
     @ (if err \<or> debug_collect_all_traces C then [Call_getTrace] else [])
     @ [Call_delete_EE, Ret_run_once t]"

definition reparse_calls :: "int \<Rightarrow> call list" where
  "reparse_calls cc = (if (cc + 1) mod 1000 = 0 then [Call_reparse] else [])"

text \<open>The calls of a pass of the loop that ends normally, begun with
  \<open>computation_count = cc\<close>; \<open>b\<close> is the answer of \<open>sleepset_is_empty\<close> and \<open>again\<close>
  that of \<open>reset\<close>, when it is asked.\<close>

definition pass_calls ::
  "Configuration \<Rightarrow> int \<Rightarrow> bool \<Rightarrow> Trace \<Rightarrow> bool \<Rightarrow> bool \<Rightarrow> call list" where
  "pass_calls C cc err t b again =
     reparse_calls cc
     @ completed_run_calls C err t
     @ [Call_sleepset_is_empty b]
     @ (if has_errors t \<and> \<not> explore_all_traces C then [] else [Call_reset again])"

subsection \<open>A small exploration to compute with\<close>

text \<open>
  A trace builder that is a countdown: it starts at 3, a run leaves it alone, \<open>reset\<close>
  steps it down and reports exhaustion at 0. The runs at 2 and at 1 have an error, and
  the run at 1 ends with a non-empty sleep set. The parser knows two sources, \<open>''main''\<close>
  and \<open>''f''\<close>; the latter parses to a module that has no function \<open>main\<close>. The file
  \<open>bad.ll\<close> holds a text that does not parse.
\<close>

definition ex_trace :: "nat \<Rightarrow> Trace" where
  "ex_trace k = \<lparr>computation = [k], computation_md = [],
                 errors = (if k = 2 then [''assertion failure'']
                           else if k = 1 then [''segmentation fault''] else [])\<rparr>"

definition ex_collaborators :: "(unit, nat) collaborators" where
  "ex_collaborators =
     \<lparr>files = (\<lambda>f. if f = ''prog.ll'' then Some (Regular ''main'')
                    else if f = ''bad.ll'' then Some (Regular ''?'')
                    else if f = ''dir'' then Some Directory else None),
      ParseIR = (\<lambda>s. if s = ''main'' then Some \<lparr>data_layout = [], function_names = [''main'']\<rparr>
                      else if s = ''f'' then Some \<lparr>data_layout = ''e'', function_names = [''f'']\<rparr>
                      else None),
      IsLittleEndianHost = True,
      check_functions = (\<lambda>m. None),
      new_TSOTraceBuilder = (\<lambda>C. 3),
      Interpreter_create = (\<lambda>m tb C. Inr ()),
      TSOInterpreter_create = (\<lambda>m tb C. Inr ()),
      runStaticConstructorsDestructors = (\<lambda>b p. p),
      getPointerToFunction = (\<lambda>f p. p),
      runFunctionAsMain = (\<lambda>f args p. p),
      checkForCycles = (\<lambda>p. p),
      getTrace = (\<lambda>p. ex_trace (snd p)),
      has_error = (\<lambda>k. k = 1 \<or> k = 2),
      sleepset_is_empty = (\<lambda>k. k \<noteq> 1),
      reset = (\<lambda>k. (0 < k, k - 1))\<rparr>"

definition ex_conf :: "bool \<Rightarrow> Configuration" where
  "ex_conf all = \<lparr>memory_model = TSO, check_robustness = True,
                  debug_collect_all_traces = False, explore_all_traces = all\<rparr>"

definition ex_state :: "bool \<Rightarrow> state" where
  "ex_state all = \<lparr>conf = ex_conf all, src = ''main'',
                   modl = Some \<lparr>data_layout = ''e'', function_names = [''main'']\<rparr>,
                   handler_installed = False, calls = []\<rparr>"

text \<open>What the exploration of the example answers when every trace is explored, and
  when it stops at the first error.\<close>

definition ex_result :: "bool \<Rightarrow> Result" where
  "ex_result all = \<lparr>trace_count = (if all then 3 else 2),
                     sleepset_blocked_trace_count = (if all then 1 else 0),
                     error_trace = ex_trace 2, all_traces = []\<rparr>"

definition ex_calls :: "bool \<Rightarrow> call list" where
  "ex_calls all =
     [Call_new_TSOTraceBuilder, Call_setup_signal_handler]
     @ completed_run_calls (ex_conf all) False empty_Trace
     @ [Call_sleepset_is_empty True, Call_reset True]
     @ completed_run_calls (ex_conf all) True (ex_trace 2)
     @ [Call_sleepset_is_empty True]
     @ (if all
        then [Call_reset True] @ completed_run_calls (ex_conf all) True (ex_trace 1)
             @ [Call_sleepset_is_empty False, Call_reset True]
             @ completed_run_calls (ex_conf all) False empty_Trace
             @ [Call_sleepset_is_empty True, Call_reset False]
        else [])
     @ [Call_reset_signal_handler, Call_delete_TB]"

text \<open>The same collaborators with a robustness check that finds a cycle: it leaves the
  trace builder at 2, where it reports an error.\<close>

definition ex_cycle_collaborators :: "(unit, nat) collaborators" where
  "ex_cycle_collaborators = ex_collaborators\<lparr>checkForCycles := (\<lambda>p. (fst p, 2))\<rparr>"

text \<open>The same collaborators with a program whose run leaves the trace builder at 1,
  where the sleep set is not empty.\<close>

definition ex_blocking_collaborators :: "(unit, nat) collaborators" where
  "ex_blocking_collaborators =
     ex_collaborators\<lparr>runFunctionAsMain := (\<lambda>f args p. (fst p, 1))\<rparr>"

text \<open>The same collaborators with a \<open>reset\<close> that never reports exhaustion.\<close>

definition ex_endless_collaborators :: "(unit, nat) collaborators" where
  "ex_endless_collaborators = ex_collaborators\<lparr>reset := (\<lambda>k. (True, k))\<rparr>"

text \<open>The driver of a module without \<open>main\<close>, as \<open>parseIR\<close> leaves it.\<close>

definition ex_nomain_state :: state where
  "ex_nomain_state = \<lparr>conf = ex_conf True, src = ''f'',
                       modl = Some \<lparr>data_layout = ''e'', function_names = [''f'']\<rparr>,
                       handler_installed = False, calls = [Call_reparse]\<rparr>"

section \<open>Properties\<close>

subsection \<open>Basic facts\<close>

lemma calls_sinceI: "calls d' = calls d @ new \<Longrightarrow> calls_since d d' = new"
  by (simp add: calls_since_def)

lemma run_once_frame:
  "run_once E TB d = (r, d') \<Longrightarrow>
     conf d' = conf d \<and> src d' = src d \<and> modl d' = modl d \<and>
     handler_installed d' = handler_installed d"
  by (auto simp: run_once_def create_EE_def log_def Let_def split: MemoryModel.splits sum.splits option.splits if_splits)

lemma run_once_Inr_calls:
  "run_once E TB d = (Inr (t, TB'), d') \<Longrightarrow>
     calls d' = calls d @ completed_run_calls (conf d) (has_error E TB') t"
  by (auto simp: run_once_def create_EE_def log_def Let_def completed_run_calls_def
           split: MemoryModel.splits sum.splits option.splits if_splits)

lemma run_once_Inl_calls:
  "run_once E TB d = (Inl e, d') \<Longrightarrow>
     calls d' = calls d @ [Call_run_once] \<or> calls d' = calls d @ [Call_run_once, Call_create_EE]"
  by (auto simp: run_once_def create_EE_def log_def Let_def
           split: MemoryModel.splits sum.splits option.splits if_splits)

lemma reparse_frame:
  "reparse E d = (r, d') \<Longrightarrow>
     conf d' = conf d \<and> src d' = src d \<and> handler_installed d' = handler_installed d \<and>
     calls d' = calls d @ [Call_reparse]"
  by (auto simp: reparse_def log_def Let_def split: option.splits)

lemma loop_pass_InrE:
  assumes "loop_pass E (res, TB, cc) d = (Inr (again, res', TB', cc'), d')"
  obtains d1 t TB2 d2 res2 where
    "cc < INT_MAX" "cc' = cc + 1"
    "if (cc + 1) mod 1000 = 0 then reparse E d = (Inr (), d1) else d1 = d"
    "run_once E TB d1 = (Inr (t, TB2), d2)"
    "if sleepset_is_empty E TB2
     then trace_count res < INT_MAX \<and>
          res2 = (if debug_collect_all_traces (conf d)
                  then res\<lparr>all_traces := all_traces res @ [t]\<rparr> else res)
                 \<lparr>trace_count := trace_count res + 1\<rparr>
     else sleepset_blocked_trace_count res < INT_MAX \<and>
          res2 = (if debug_collect_all_traces (conf d)
                  then res\<lparr>all_traces := all_traces res @ [t]\<rparr> else res)
                 \<lparr>sleepset_blocked_trace_count := sleepset_blocked_trace_count res + 1\<rparr>"
    "res' = (if has_errors t \<and> \<not> res_has_errors res2 then res2\<lparr>error_trace := t\<rparr> else res2)"
    "if has_errors t \<and> \<not> explore_all_traces (conf d)
     then \<not> again \<and> TB' = TB2 \<and>
          d' = log [Call_sleepset_is_empty (sleepset_is_empty E TB2)] d2
     else reset E TB2 = (again, TB') \<and>
          d' = log [Call_reset again] (log [Call_sleepset_is_empty (sleepset_is_empty E TB2)] d2)"
  using assms
  unfolding loop_pass_def incr_def
  by (auto simp: Let_def split: if_splits sum.splits prod.splits)

lemma loop_pass_Inl_cases:
  assumes "loop_pass E (res, TB, cc) d = (Inl e, d')"
  shows
    "(\<not> cc < INT_MAX \<and> d' = d) \<or>
     ((cc + 1) mod 1000 = 0 \<and> reparse E d = (Inl e, d')) \<or>
     (\<exists>d1. (if (cc + 1) mod 1000 = 0 then reparse E d = (Inr (), d1) else d1 = d) \<and>
        run_once E TB d1 = (Inl e, d')) \<or>
     (\<exists>d1 t TB2 d2. (if (cc + 1) mod 1000 = 0 then reparse E d = (Inr (), d1) else d1 = d) \<and>
        run_once E TB d1 = (Inr (t, TB2), d2) \<and> e = Signed_overflow \<and>
        d' = log [Call_sleepset_is_empty (sleepset_is_empty E TB2)] d2)"
  using assms unfolding loop_pass_def incr_def
  by (auto simp: Let_def split: if_splits sum.splits prod.splits)

lemma maybe_reparse_calls:
  "(if (cc + 1) mod 1000 = 0 then reparse E d = (Inr (), d1) else d1 = d) \<Longrightarrow>
     calls d1 = calls d @ reparse_calls cc \<and> conf d1 = conf d \<and> src d1 = src d \<and>
     handler_installed d1 = handler_installed d"
  by (auto simp: reparse_calls_def dest: reparse_frame split: if_splits)

lemma loop_pass_Inl:
  assumes "loop_pass E (res, TB, cc) d = (Inl e, d')"
  shows "conf d' = conf d \<and> src d' = src d \<and> handler_installed d' = handler_installed d"
    and "\<exists>rest. calls d' = calls d @ rest \<and>
           (rest = [] \<or>
            (\<exists>tl. rest = reparse_calls cc @ tl \<and>
               (tl = [] \<or> tl = [Call_run_once] \<or> tl = [Call_run_once, Call_create_EE] \<or>
                (\<exists>err t b. e = Signed_overflow \<and>
                   tl = completed_run_calls (conf d) err t @ [Call_sleepset_is_empty b]))))"
proof -
  from loop_pass_Inl_cases [OF assms]
  consider
    (overflow) "d' = d"
  | (reparse) "(cc + 1) mod 1000 = 0" "reparse E d = (Inl e, d')"
  | (run_once) d1 where
      "if (cc + 1) mod 1000 = 0 then reparse E d = (Inr (), d1) else d1 = d"
      "run_once E TB d1 = (Inl e, d')"
  | (count) d1 t TB2 d2 where
      "if (cc + 1) mod 1000 = 0 then reparse E d = (Inr (), d1) else d1 = d"
      "run_once E TB d1 = (Inr (t, TB2), d2)" "e = Signed_overflow"
      "d' = log [Call_sleepset_is_empty (sleepset_is_empty E TB2)] d2"
    by blast
  then have
    "(conf d' = conf d \<and> src d' = src d \<and> handler_installed d' = handler_installed d) \<and>
     (\<exists>rest. calls d' = calls d @ rest \<and>
           (rest = [] \<or>
            (\<exists>tl. rest = reparse_calls cc @ tl \<and>
               (tl = [] \<or> tl = [Call_run_once] \<or> tl = [Call_run_once, Call_create_EE] \<or>
                (\<exists>err t b. e = Signed_overflow \<and>
                   tl = completed_run_calls (conf d) err t @ [Call_sleepset_is_empty b])))))"
  proof cases
    case overflow
    then show ?thesis by simp
  next
    case reparse
    from reparse_frame [OF reparse(2)] reparse(1) show ?thesis
      by (simp add: reparse_calls_def)
  next
    case run_once
    from maybe_reparse_calls [OF run_once(1)] run_once_frame [OF run_once(2)]
      run_once_Inl_calls [OF run_once(2)]
    show ?thesis by auto
  next
    case count
    from maybe_reparse_calls [OF count(1)] run_once_frame [OF count(2)]
      run_once_Inr_calls [OF count(2)] count(3,4)
    show ?thesis by (auto simp: log_def)
  qed
  then show "conf d' = conf d \<and> src d' = src d \<and> handler_installed d' = handler_installed d"
    and "\<exists>rest. calls d' = calls d @ rest \<and>
           (rest = [] \<or>
            (\<exists>tl. rest = reparse_calls cc @ tl \<and>
               (tl = [] \<or> tl = [Call_run_once] \<or> tl = [Call_run_once, Call_create_EE] \<or>
                (\<exists>err t b. e = Signed_overflow \<and>
                   tl = completed_run_calls (conf d) err t @ [Call_sleepset_is_empty b]))))"
    by blast+
qed

lemma run_loop_induct [consumes 1, case_names fail last more]:
  assumes "run_loop fuel E loc d = Some (r, d')"
    and "\<And>loc d e. loop_pass E loc d = (Inl e, d') \<Longrightarrow> r = Inl e \<Longrightarrow> P loc d"
    and "\<And>loc d res' TB' cc'.
           loop_pass E loc d = (Inr (False, res', TB', cc'), d') \<Longrightarrow> r = Inr (res', TB') \<Longrightarrow> P loc d"
    and "\<And>loc d res1 TB1 cc1 d1.
           loop_pass E loc d = (Inr (True, res1, TB1, cc1), d1) \<Longrightarrow>
           P (res1, TB1, cc1) d1 \<Longrightarrow> P loc d"
  shows "P loc d"
  using assms(1)
proof (induction fuel arbitrary: loc d)
  case 0
  then show ?case by simp
next
  case (Suc fuel)
  obtain r1 d1 where pass: "loop_pass E loc d = (r1, d1)"
    by (cases "loop_pass E loc d")
  show ?case
  proof (cases r1)
    case (Inl e)
    with Suc.prems pass show ?thesis
      using assms(2) by auto
  next
    case (Inr x)
    obtain again res1 TB1 cc1 where x: "x = (again, res1, TB1, cc1)"
      by (cases x)
    show ?thesis
    proof (cases again)
      case True
      with Suc.prems pass Inr x
      have "run_loop fuel E (res1, TB1, cc1) d1 = Some (r, d')" by simp
      then have "P (res1, TB1, cc1) d1" by (rule Suc.IH)
      moreover from pass Inr x True
      have "loop_pass E loc d = (Inr (True, res1, TB1, cc1), d1)" by simp
      ultimately show ?thesis
        using assms(4) by blast
    next
      case False
      with Suc.prems pass Inr x show ?thesis
        using assms(3) by auto
    qed
  qed
qed


lemma loop_pass_Inr:
  assumes "loop_pass E (res, TB, cc) d = (Inr (again, res', TB', cc'), d')"
  obtains t err b where
    "calls d' = calls d @ pass_calls (conf d) cc err t b again"
    "has_errors t \<and> \<not> explore_all_traces (conf d) \<longrightarrow> \<not> again"
    "cc' = cc + 1" "cc < INT_MAX"
    "trace_count res' = trace_count res + (if b then 1 else 0)"
    "sleepset_blocked_trace_count res' = sleepset_blocked_trace_count res + (if b then 0 else 1)"
    "error_trace res' = (if has_errors t \<and> \<not> res_has_errors res then t else error_trace res)"
    "all_traces res' = all_traces res @ (if debug_collect_all_traces (conf d) then [t] else [])"
    "conf d' = conf d" "src d' = src d" "handler_installed d' = handler_installed d"
proof -
  from assms obtain d1 t TB2 d2 res2 where
    h: "cc < INT_MAX" "cc' = cc + 1"
    "if (cc + 1) mod 1000 = 0 then reparse E d = (Inr (), d1) else d1 = d"
    "run_once E TB d1 = (Inr (t, TB2), d2)"
    "if sleepset_is_empty E TB2
     then trace_count res < INT_MAX \<and>
          res2 = (if debug_collect_all_traces (conf d)
                  then res\<lparr>all_traces := all_traces res @ [t]\<rparr> else res)
                 \<lparr>trace_count := trace_count res + 1\<rparr>
     else sleepset_blocked_trace_count res < INT_MAX \<and>
          res2 = (if debug_collect_all_traces (conf d)
                  then res\<lparr>all_traces := all_traces res @ [t]\<rparr> else res)
                 \<lparr>sleepset_blocked_trace_count := sleepset_blocked_trace_count res + 1\<rparr>"
    "res' = (if has_errors t \<and> \<not> res_has_errors res2 then res2\<lparr>error_trace := t\<rparr> else res2)"
    "if has_errors t \<and> \<not> explore_all_traces (conf d)
     then \<not> again \<and> TB' = TB2 \<and>
          d' = log [Call_sleepset_is_empty (sleepset_is_empty E TB2)] d2
     else reset E TB2 = (again, TB') \<and>
          d' = log [Call_reset again] (log [Call_sleepset_is_empty (sleepset_is_empty E TB2)] d2)"
    by (rule loop_pass_InrE)
  note pre = maybe_reparse_calls [OF h(3)]
  note fr = run_once_frame [OF h(4)]
  note cl = run_once_Inr_calls [OF h(4)]
  have 1: "calls d' = calls d @ pass_calls (conf d) cc (has_error E TB2) t (sleepset_is_empty E TB2) again"
    using pre fr cl h(7) by (auto simp: pass_calls_def log_def split: if_splits)
  have 2: "has_errors t \<and> \<not> explore_all_traces (conf d) \<longrightarrow> \<not> again"
    using h(7) by (auto split: if_splits)
  have 3: "trace_count res' = trace_count res + (if sleepset_is_empty E TB2 then 1 else 0)"
    "sleepset_blocked_trace_count res' =
       sleepset_blocked_trace_count res + (if sleepset_is_empty E TB2 then 0 else 1)"
    "all_traces res' = all_traces res @ (if debug_collect_all_traces (conf d) then [t] else [])"
    using h(5,6) by (auto split: if_splits)
  have "res_has_errors res2 = res_has_errors res"
    using h(5) by (auto simp: res_has_errors_def split: if_splits)
  then have 4: "error_trace res' = (if has_errors t \<and> \<not> res_has_errors res then t else error_trace res)"
    using h(5,6) by (auto split: if_splits)
  have 5: "conf d' = conf d" "src d' = src d" "handler_installed d' = handler_installed d"
    using pre fr h(7) by (auto simp: log_def split: if_splits)
  from that [OF 1 2 h(2) h(1) 3(1) 3(2) 4 3(3) 5] show thesis .
qed


lemma runE:
  assumes "run fuel E d = Some (r, d')"
  obtains
    (unsupported) "memory_model (conf d) = MM_UNDEF" "d' = d"
      "r = Inl (Logic_error ''DPORDriver: Unsupported memory model.'')"
  | (failed) e where "memory_model (conf d) \<noteq> MM_UNDEF"
      "run_loop fuel E (new_Result, new_TSOTraceBuilder E (conf d), 0)
         ((log [Call_new_TSOTraceBuilder, Call_setup_signal_handler] d)
            \<lparr>handler_installed := True\<rparr>) = Some (Inl e, d')"
      "r = Inl e"
  | (returned) res TB2 d2 where "memory_model (conf d) \<noteq> MM_UNDEF"
      "run_loop fuel E (new_Result, new_TSOTraceBuilder E (conf d), 0)
         ((log [Call_new_TSOTraceBuilder, Call_setup_signal_handler] d)
            \<lparr>handler_installed := True\<rparr>) = Some (Inr (res, TB2), d2)"
      "r = Inr res"
      "d' = (log [Call_reset_signal_handler, Call_delete_TB] d2)\<lparr>handler_installed := False\<rparr>"
  using assms unfolding run_def
  by (auto simp: Let_def split: MemoryModel.splits option.splits sum.splits prod.splits)

lemma ex_run:
  "run 5 ex_collaborators (ex_state all) =
     Some (Inr (ex_result all), (ex_state all)\<lparr>calls := ex_calls all\<rparr>)"
  by (cases all)
    (simp_all add: run_def ex_state_def ex_conf_def ex_collaborators_def numeral_nat
      loop_pass_def run_once_def create_EE_def incr_def INT_MAX_def log_def new_Result_def Let_def
      has_errors_def res_has_errors_def empty_Trace_def ex_result_def ex_calls_def
      ex_trace_def completed_run_calls_def)

lemma run_loop_counters:
  assumes "run_loop fuel E (res, TB, cc) d = Some (Inr (res', TB'), d')"
  shows "\<exists>new. calls d' = calls d @ new \<and>
           trace_count res' = trace_count res + int (count_list new (Call_sleepset_is_empty True)) \<and>
           sleepset_blocked_trace_count res' =
             sleepset_blocked_trace_count res + int (count_list new (Call_sleepset_is_empty False)) \<and>
           count_list new Call_run_once =
             count_list new (Call_sleepset_is_empty True) + count_list new (Call_sleepset_is_empty False)"
proof -
  let ?P = "\<lambda>loc d. \<exists>new. calls d' = calls d @ new \<and>
           trace_count res' = trace_count (fst loc) + int (count_list new (Call_sleepset_is_empty True)) \<and>
           sleepset_blocked_trace_count res' =
             sleepset_blocked_trace_count (fst loc) + int (count_list new (Call_sleepset_is_empty False)) \<and>
           count_list new Call_run_once =
             count_list new (Call_sleepset_is_empty True) + count_list new (Call_sleepset_is_empty False)"
  from assms have "?P (res, TB, cc) d"
  proof (induction rule: run_loop_induct)
    case (fail loc d e)
    then show ?case by simp
  next
    case (last loc d res1 TB1 cc1)
    obtain res0 TB0 cc0 where loc: "loc = (res0, TB0, cc0)" by (cases loc)
    from last(1) [unfolded loc] last(2) show ?case
      by (elim loop_pass_Inr)
        (auto simp: loc pass_calls_def completed_run_calls_def reparse_calls_def)
  next
    case (more loc d res1 TB1 cc1 d1)
    obtain res0 TB0 cc0 where loc: "loc = (res0, TB0, cc0)" by (cases loc)
    from more(2) obtain new where new: "calls d' = calls d1 @ new"
      "trace_count res' = trace_count res1 + int (count_list new (Call_sleepset_is_empty True))"
      "sleepset_blocked_trace_count res' =
             sleepset_blocked_trace_count res1 + int (count_list new (Call_sleepset_is_empty False))"
      "count_list new Call_run_once =
             count_list new (Call_sleepset_is_empty True) + count_list new (Call_sleepset_is_empty False)"
      by auto
    from more(1) [unfolded loc] new show ?case
      by (elim loop_pass_Inr)
        (auto simp: loc pass_calls_def completed_run_calls_def reparse_calls_def)
  qed
  then show ?thesis by simp
qed

lemma returned_traces_append [simp]:
  "returned_traces (xs @ ys) = returned_traces xs @ returned_traces ys"
  by (induction xs rule: returned_traces.induct) simp_all

lemma run_once_calls_since:
  "run_once E TB d = (Inr (t, TB'), d') \<Longrightarrow>
     calls_since d d' = completed_run_calls (conf d) (has_error E TB') t"
  by (rule calls_sinceI) (rule run_once_Inr_calls)

lemma run_loop_checks:
  assumes "run_loop fuel E loc d = Some (r, d')"
  shows "\<exists>new. calls d' = calls d @ new \<and>
           count_list new Call_checkForCycles =
             (if check_robustness (conf d) then length (returned_traces new) else 0)"
  using assms
proof (induction rule: run_loop_induct)
  case (fail loc d e)
  obtain res0 TB0 cc0 where loc: "loc = (res0, TB0, cc0)" by (cases loc)
  from loop_pass_Inl(2) [OF fail(1) [unfolded loc]] show ?case
    by (auto simp: completed_run_calls_def reparse_calls_def)
next
  case (last loc d res1 TB1 cc1)
  obtain res0 TB0 cc0 where loc: "loc = (res0, TB0, cc0)" by (cases loc)
  from last(1) [unfolded loc] show ?case
    by (elim loop_pass_Inr)
      (auto simp: pass_calls_def completed_run_calls_def reparse_calls_def)
next
  case (more loc d res1 TB1 cc1 d1)
  obtain res0 TB0 cc0 where loc: "loc = (res0, TB0, cc0)" by (cases loc)
  from more(2) obtain new where new: "calls d' = calls d1 @ new"
    "count_list new Call_checkForCycles =
       (if check_robustness (conf d1) then length (returned_traces new) else 0)"
    by auto
  from more(1) [unfolded loc] new show ?case
    by (elim loop_pass_Inr)
      (auto simp: pass_calls_def completed_run_calls_def reparse_calls_def)
qed

lemma run_calls_since:
  assumes "run fuel E d = Some (r, d')"
  obtains
    (unsupported) "memory_model (conf d) = MM_UNDEF" "calls_since d d' = []"
      "r = Inl (Logic_error ''DPORDriver: Unsupported memory model.'')" "d' = d"
  | (failed) e d1 new where "memory_model (conf d) \<noteq> MM_UNDEF"
      "d1 = (log [Call_new_TSOTraceBuilder, Call_setup_signal_handler] d)
              \<lparr>handler_installed := True\<rparr>"
      "run_loop fuel E (new_Result, new_TSOTraceBuilder E (conf d), 0) d1 = Some (Inl e, d')"
      "r = Inl e" "calls d' = calls d1 @ new"
      "calls_since d d' = [Call_new_TSOTraceBuilder, Call_setup_signal_handler] @ new"
  | (returned) res TB2 d1 d2 new where "memory_model (conf d) \<noteq> MM_UNDEF"
      "d1 = (log [Call_new_TSOTraceBuilder, Call_setup_signal_handler] d)
              \<lparr>handler_installed := True\<rparr>"
      "run_loop fuel E (new_Result, new_TSOTraceBuilder E (conf d), 0) d1 = Some (Inr (res, TB2), d2)"
      "r = Inr res" "calls d2 = calls d1 @ new"
      "d' = (log [Call_reset_signal_handler, Call_delete_TB] d2)\<lparr>handler_installed := False\<rparr>"
      "calls_since d d' = [Call_new_TSOTraceBuilder, Call_setup_signal_handler] @ new
         @ [Call_reset_signal_handler, Call_delete_TB]"
  using assms
proof (cases rule: runE)
  case unsupported
  then show ?thesis using that(1) by (simp add: calls_since_def)
next
  case (failed e)
  from run_loop_checks [OF failed(2)] obtain new where
    "calls d' = calls ((log [Call_new_TSOTraceBuilder, Call_setup_signal_handler] d)
              \<lparr>handler_installed := True\<rparr>) @ new" by auto
  with failed show ?thesis
    by (intro that(2) [OF _ refl]) (auto simp: log_def calls_since_def)
next
  case (returned res TB2 d2)
  from run_loop_checks [OF returned(2)] obtain new where
    "calls d2 = calls ((log [Call_new_TSOTraceBuilder, Call_setup_signal_handler] d)
              \<lparr>handler_installed := True\<rparr>) @ new" by auto
  with returned show ?thesis
    by (intro that(3) [OF _ refl]) (auto simp: log_def calls_since_def)
qed

lemma run_loop_handler:
  assumes "run_loop fuel E loc d = Some (r, d')"
  shows "handler_installed d' = handler_installed d \<and> conf d' = conf d \<and> src d' = src d \<and>
         (\<exists>new. calls d' = calls d @ new \<and>
            Call_setup_signal_handler \<notin> set new \<and> Call_reset_signal_handler \<notin> set new \<and>
            Call_delete_TB \<notin> set new \<and> Call_new_TSOTraceBuilder \<notin> set new \<and>
            (\<forall>res TB. r = Inr (res, TB) \<longrightarrow> Call_run_once \<in> set new))"
  using assms
proof (induction rule: run_loop_induct)
  case (fail loc d e)
  obtain res0 TB0 cc0 where loc: "loc = (res0, TB0, cc0)" by (cases loc)
  from loop_pass_Inl [OF fail(1) [unfolded loc]] fail(2) show ?case
    by (auto simp: completed_run_calls_def reparse_calls_def)
next
  case (last loc d res1 TB1 cc1)
  obtain res0 TB0 cc0 where loc: "loc = (res0, TB0, cc0)" by (cases loc)
  from last(1) [unfolded loc] show ?case
    by (elim loop_pass_Inr)
      (auto simp: pass_calls_def completed_run_calls_def reparse_calls_def)
next
  case (more loc d res1 TB1 cc1 d1)
  obtain res0 TB0 cc0 where loc: "loc = (res0, TB0, cc0)" by (cases loc)
  from more(2) obtain new where new: "calls d' = calls d1 @ new"
    "Call_setup_signal_handler \<notin> set new" "Call_reset_signal_handler \<notin> set new"
    "Call_delete_TB \<notin> set new" "Call_new_TSOTraceBuilder \<notin> set new"
    "handler_installed d' = handler_installed d1" "conf d' = conf d1" "src d' = src d1"
    by auto
  from more(1) [unfolded loc] new show ?case
    by (elim loop_pass_Inr)
      (auto simp: pass_calls_def completed_run_calls_def reparse_calls_def)
qed

lemma create_EE_cong:
  "conf d1 = conf d \<Longrightarrow> modl d1 = modl d \<Longrightarrow> create_EE E TB d1 = create_EE E TB d"
  by (cases "memory_model (conf d)") (simp_all add: create_EE_def)

lemma after_first_error_append:
  "after_first_error (xs @ ys) =
     (case after_first_error xs of Some post \<Rightarrow> Some (post @ ys) | None \<Rightarrow> after_first_error ys)"
  by (induction xs rule: after_first_error.induct) simp_all

lemma reset_answers_append [simp]:
  "reset_answers (xs @ ys) = reset_answers xs @ reset_answers ys"
  by (induction xs rule: reset_answers.induct) simp_all

lemma pass_calls_returned [simp]:
  "returned_traces (pass_calls C cc err t b again) = [t]"
  by (simp add: pass_calls_def completed_run_calls_def reparse_calls_def)

lemma pass_calls_reset_answers [simp]:
  "reset_answers (pass_calls C cc err t b again) =
     (if has_errors t \<and> \<not> explore_all_traces C then [] else [again])"
  by (simp add: pass_calls_def completed_run_calls_def reparse_calls_def)

lemma pass_calls_after_first_error [simp]:
  "after_first_error (pass_calls C cc err t b again) =
     (if has_errors t
      then Some (Call_sleepset_is_empty b # (if explore_all_traces C then [Call_reset again] else []))
      else None)"
  by (simp add: pass_calls_def completed_run_calls_def reparse_calls_def)

lemma first_erroneous_simps [simp]:
  "first_erroneous [] = empty_Trace"
  "first_erroneous (t # ts) = (if has_errors t then t else first_erroneous ts)"
  by (simp_all add: first_erroneous_def)

lemma run_loop_error_trace:
  assumes "run_loop fuel E (res, TB, cc) d = Some (Inr (res', TB'), d')"
  shows "\<exists>new. calls d' = calls d @ new \<and>
           error_trace res' =
             (if res_has_errors res \<or> \<not> (\<exists>t \<in> set (returned_traces new). has_errors t)
              then error_trace res else first_erroneous (returned_traces new))"
proof -
  let ?P = "\<lambda>loc d. \<exists>new. calls d' = calls d @ new \<and>
           error_trace res' =
             (if res_has_errors (fst loc) \<or> \<not> (\<exists>t \<in> set (returned_traces new). has_errors t)
              then error_trace (fst loc) else first_erroneous (returned_traces new))"
  from assms have "?P (res, TB, cc) d"
  proof (induction rule: run_loop_induct)
    case (fail loc d e)
    then show ?case by simp
  next
    case (last loc d res1 TB1 cc1)
    obtain res0 TB0 cc0 where loc: "loc = (res0, TB0, cc0)" by (cases loc)
    from last(1) [unfolded loc] last(2) show ?case
      by (elim loop_pass_Inr) (auto simp: loc)
  next
    case (more loc d res1 TB1 cc1 d1)
    obtain res0 TB0 cc0 where loc: "loc = (res0, TB0, cc0)" by (cases loc)
    from more(2) obtain new where new: "calls d' = calls d1 @ new"
      "error_trace res' =
             (if res_has_errors res1 \<or> \<not> (\<exists>t \<in> set (returned_traces new). has_errors t)
              then error_trace res1 else first_erroneous (returned_traces new))"
      by auto
    from more(1) [unfolded loc] show ?case
    proof (rule loop_pass_Inr)
      fix t err b
      assume c: "calls d1 = calls d @ pass_calls (conf d) cc0 err t b True"
        and e: "error_trace res1 =
                  (if has_errors t \<and> \<not> res_has_errors res0 then t else error_trace res0)"
      let ?new = "pass_calls (conf d) cc0 err t b True @ new"
      have "calls d' = calls d @ ?new"
        using c new(1) by simp
      moreover have "error_trace res' =
             (if res_has_errors res0 \<or> \<not> (\<exists>t \<in> set (returned_traces ?new). has_errors t)
              then error_trace res0 else first_erroneous (returned_traces ?new))"
        using new(2) e by (auto simp: res_has_errors_def)
      ultimately show ?thesis
        unfolding loc fst_conv by blast
    qed
  qed
  then show ?thesis unfolding fst_conv .
qed

lemma run_loop_stops_at_first_error:
  assumes "run_loop fuel E (res, TB, cc) d = Some (Inr (res', TB'), d')"
    and "\<not> explore_all_traces (conf d)"
  shows "\<exists>new. calls d' = calls d @ new \<and>
           (\<forall>post. after_first_error new = Some post \<longrightarrow>
              (\<exists>b. post = [Call_sleepset_is_empty b]))"
proof -
  let ?P = "\<lambda>loc d. \<not> explore_all_traces (conf d) \<longrightarrow>
           (\<exists>new. calls d' = calls d @ new \<and>
              (\<forall>post. after_first_error new = Some post \<longrightarrow>
                 (\<exists>b. post = [Call_sleepset_is_empty b])))"
  from assms(1) have "?P (res, TB, cc) d"
  proof (induction rule: run_loop_induct)
    case (fail loc d e)
    then show ?case by simp
  next
    case (last loc d res1 TB1 cc1)
    obtain res0 TB0 cc0 where loc: "loc = (res0, TB0, cc0)" by (cases loc)
    from last(1) [unfolded loc] show ?case
      by (elim loop_pass_Inr) auto
  next
    case (more loc d res1 TB1 cc1 d1)
    obtain res0 TB0 cc0 where loc: "loc = (res0, TB0, cc0)" by (cases loc)
    from more(1) [unfolded loc] show ?case
    proof (rule loop_pass_Inr)
      fix t err b
      assume c: "calls d1 = calls d @ pass_calls (conf d) cc0 err t b True"
        and brk: "has_errors t \<and> \<not> explore_all_traces (conf d) \<longrightarrow> \<not> True"
        and cf: "conf d1 = conf d"
      show ?thesis
      proof
        assume na: "\<not> explore_all_traces (conf d)"
        with more(2) cf obtain new where new: "calls d' = calls d1 @ new"
          "\<forall>post. after_first_error new = Some post \<longrightarrow>
                 (\<exists>b. post = [Call_sleepset_is_empty b])"
          by auto
        from brk na have "\<not> has_errors t" by simp
        then have "after_first_error (pass_calls (conf d) cc0 err t b True @ new) =
                   after_first_error new"
          by (simp add: after_first_error_append)
        with new c show "\<exists>new. calls d' = calls d @ new \<and>
              (\<forall>post. after_first_error new = Some post \<longrightarrow>
                 (\<exists>b. post = [Call_sleepset_is_empty b]))"
          by (intro exI [of _ "pass_calls (conf d) cc0 err t b True @ new"]) simp
      qed
    qed
  qed
  with assms(2) show ?thesis by simp
qed

lemma run_loop_explores_all:
  assumes "run_loop fuel E (res, TB, cc) d = Some (Inr (res', TB'), d')"
    and "explore_all_traces (conf d)"
  shows "\<exists>new. calls d' = calls d @ new \<and> returned_traces new \<noteq> [] \<and>
           reset_answers new = replicate (length (returned_traces new) - 1) True @ [False]"
proof -
  let ?P = "\<lambda>loc d. explore_all_traces (conf d) \<longrightarrow>
           (\<exists>new. calls d' = calls d @ new \<and> returned_traces new \<noteq> [] \<and>
              reset_answers new = replicate (length (returned_traces new) - 1) True @ [False])"
  from assms(1) have "?P (res, TB, cc) d"
  proof (induction rule: run_loop_induct)
    case (fail loc d e)
    then show ?case by simp
  next
    case (last loc d res1 TB1 cc1)
    obtain res0 TB0 cc0 where loc: "loc = (res0, TB0, cc0)" by (cases loc)
    from last(1) [unfolded loc] show ?case
      by (elim loop_pass_Inr) auto
  next
    case (more loc d res1 TB1 cc1 d1)
    obtain res0 TB0 cc0 where loc: "loc = (res0, TB0, cc0)" by (cases loc)
    from more(1) [unfolded loc] show ?case
    proof (rule loop_pass_Inr)
      fix t err b
      assume c: "calls d1 = calls d @ pass_calls (conf d) cc0 err t b True"
        and cf: "conf d1 = conf d"
      show ?thesis
      proof
        assume all: "explore_all_traces (conf d)"
        with more(2) cf obtain new where new: "calls d' = calls d1 @ new"
          "returned_traces new \<noteq> []"
          "reset_answers new = replicate (length (returned_traces new) - 1) True @ [False]"
          by auto
        let ?new = "pass_calls (conf d) cc0 err t b True @ new"
        from new(2) have "replicate (length (returned_traces new)) True =
                          True # replicate (length (returned_traces new) - 1) True"
          by (cases "returned_traces new") simp_all
        with new(3) all have "reset_answers ?new =
                 replicate (length (returned_traces ?new) - 1) True @ [False]"
          by simp
        with new(1) c show "\<exists>new. calls d' = calls d @ new \<and> returned_traces new \<noteq> [] \<and>
              reset_answers new = replicate (length (returned_traces new) - 1) True @ [False]"
          by (intro exI [of _ ?new]) simp
      qed
    qed
  qed
  with assms(2) show ?thesis by simp
qed

lemma reparse_pattern_pass:
  "reparse_pattern cc False (pass_calls C cc err t b again @ rest) =
     reparse_pattern (cc + 1) False rest"
  by (simp add: pass_calls_def completed_run_calls_def reparse_calls_def)

lemma run_loop_reparse_pattern:
  assumes "run_loop fuel E (res, TB, cc) d = Some (Inr (res', TB'), d')"
  shows "\<exists>new k. calls d' = calls d @ new \<and>
           (\<forall>rest. reparse_pattern cc False (new @ rest) = reparse_pattern k False rest)"
proof -
  let ?P = "\<lambda>loc d. \<exists>new k. calls d' = calls d @ new \<and>
              (\<forall>rest. reparse_pattern (snd (snd loc)) False (new @ rest) =
                        reparse_pattern k False rest)"
  from assms have "?P (res, TB, cc) d"
  proof (induction rule: run_loop_induct)
    case (fail loc d e)
    then show ?case by simp
  next
    case (last loc d res1 TB1 cc1)
    obtain res0 TB0 cc0 where loc: "loc = (res0, TB0, cc0)" by (cases loc)
    from last(1) [unfolded loc] show ?case
      unfolding loc snd_conv
      by (elim loop_pass_Inr) (metis reparse_pattern_pass)
  next
    case (more loc d res1 TB1 cc1 d1)
    obtain res0 TB0 cc0 where loc: "loc = (res0, TB0, cc0)" by (cases loc)
    from more(2) obtain new k where new: "calls d' = calls d1 @ new"
      "\<forall>rest. reparse_pattern cc1 False (new @ rest) = reparse_pattern k False rest"
      by auto
    from more(1) [unfolded loc] show ?case
    proof (rule loop_pass_Inr)
      fix t err b
      assume c: "calls d1 = calls d @ pass_calls (conf d) cc0 err t b True"
        and cc: "cc1 = cc0 + 1"
      let ?new = "pass_calls (conf d) cc0 err t b True @ new"
      have "calls d' = calls d @ ?new"
        using c new(1) by simp
      moreover have "\<forall>rest. reparse_pattern cc0 False (?new @ rest) = reparse_pattern k False rest"
        using new(2) cc by (simp add: reparse_pattern_pass)
      ultimately show ?thesis
        unfolding loc snd_conv by blast
    qed
  qed
  then show ?thesis unfolding snd_conv .
qed

lemma loop_pass_reparse_first:
  assumes "loop_pass E (res, TB, cc) d = (r, d1)" and "cc < INT_MAX"
  shows "\<exists>rest. calls d1 = calls d @ reparse_calls cc @ rest \<and> Call_reparse \<notin> set rest"
proof (cases r)
  case (Inl e)
  with assms(1) have "loop_pass E (res, TB, cc) d = (Inl e, d1)" by simp
  from loop_pass_Inl_cases [OF this] assms(2)
  consider
    (reparse) "(cc + 1) mod 1000 = 0" "reparse E d = (Inl e, d1)"
  | (run_once) d0 where
      "if (cc + 1) mod 1000 = 0 then reparse E d = (Inr (), d0) else d0 = d"
      "run_once E TB d0 = (Inl e, d1)"
  | (count) d0 t TB2 d2 where
      "if (cc + 1) mod 1000 = 0 then reparse E d = (Inr (), d0) else d0 = d"
      "run_once E TB d0 = (Inr (t, TB2), d2)" "e = Signed_overflow"
      "d1 = log [Call_sleepset_is_empty (sleepset_is_empty E TB2)] d2"
    by blast
  then show ?thesis
  proof cases
    case reparse
    from reparse_frame [OF reparse(2)] reparse(1) show ?thesis
      by (simp add: reparse_calls_def)
  next
    case run_once
    from maybe_reparse_calls [OF run_once(1)] run_once_Inl_calls [OF run_once(2)]
    show ?thesis by auto
  next
    case count
    from maybe_reparse_calls [OF count(1)] run_once_Inr_calls [OF count(2)] count(4)
    show ?thesis by (auto simp: log_def completed_run_calls_def)
  qed
next
  case (Inr x)
  obtain again res1 TB1 cc1 where "x = (again, res1, TB1, cc1)" by (cases x)
  with Inr assms(1) have "loop_pass E (res, TB, cc) d = (Inr (again, res1, TB1, cc1), d1)"
    by simp
  then show ?thesis
    by (elim loop_pass_Inr) (auto simp: pass_calls_def completed_run_calls_def)
qed

lemma ex_pass_1000:
  "loop_pass ex_collaborators (new_Result, 3, 999) (ex_state True) =
     (Inr (True, new_Result\<lparr>trace_count := 1\<rparr>, 2, 1000),
      (ex_state True)\<lparr>calls := Call_reparse # completed_run_calls (ex_conf True) False empty_Trace
                                 @ [Call_sleepset_is_empty True, Call_reset True]\<rparr>)"
  by (simp add: ex_state_def ex_conf_def ex_collaborators_def
      loop_pass_def run_once_def create_EE_def reparse_def incr_def INT_MAX_def log_def new_Result_def
      Let_def has_errors_def res_has_errors_def empty_Trace_def completed_run_calls_def)

lemma well_scheduled_pass:
  "well_scheduled Run_due (pass_calls C cc err t b again @ rest) =
     well_scheduled (if has_errors t \<and> \<not> explore_all_traces C then Ran
                     else if again then Run_due else Exhausted) rest"
  by (simp add: pass_calls_def completed_run_calls_def reparse_calls_def)

lemma run_loop_well_scheduled:
  assumes "run_loop fuel E (res, TB, cc) d = Some (Inr (res', TB'), d')"
  shows "\<exists>new p. calls d' = calls d @ new \<and> p \<noteq> Run_due \<and>
           (\<forall>rest. well_scheduled Run_due (new @ rest) = well_scheduled p rest)"
  using assms
proof (induction rule: run_loop_induct)
  case (fail loc d e)
  then show ?case by simp
next
  case (last loc d res1 TB1 cc1)
  obtain res0 TB0 cc0 where loc: "loc = (res0, TB0, cc0)" by (cases loc)
  from last(1) [unfolded loc] show ?case
  proof (rule loop_pass_Inr)
    fix t err b
    assume c: "calls d' = calls d @ pass_calls (conf d) cc0 err t b False"
    let ?p = "if has_errors t \<and> \<not> explore_all_traces (conf d) then Ran else Exhausted"
    have "?p \<noteq> Run_due" by simp
    moreover have "\<forall>rest. well_scheduled Run_due (pass_calls (conf d) cc0 err t b False @ rest) =
                     well_scheduled ?p rest"
      by (simp add: well_scheduled_pass)
    ultimately show ?thesis using c by blast
  qed
next
  case (more loc d res1 TB1 cc1 d1)
  obtain res0 TB0 cc0 where loc: "loc = (res0, TB0, cc0)" by (cases loc)
  from more(2) obtain new p where new: "calls d' = calls d1 @ new" "p \<noteq> Run_due"
    "\<forall>rest. well_scheduled Run_due (new @ rest) = well_scheduled p rest"
    by auto
  from more(1) [unfolded loc] show ?case
  proof (rule loop_pass_Inr)
    fix t err b
    assume c: "calls d1 = calls d @ pass_calls (conf d) cc0 err t b True"
      and brk: "has_errors t \<and> \<not> explore_all_traces (conf d) \<longrightarrow> \<not> True"
    let ?new = "pass_calls (conf d) cc0 err t b True @ new"
    have "calls d' = calls d @ ?new"
      using c new(1) by simp
    moreover have "\<forall>rest. well_scheduled Run_due (?new @ rest) = well_scheduled p rest"
      using new(3) brk by (auto simp: well_scheduled_pass)
    ultimately show ?thesis using new(2) by blast
  qed
qed

lemma run_loop_fuel_mono:
  "run_loop fuel E loc d = Some r \<Longrightarrow> run_loop (fuel + k) E loc d = Some r"
proof (induction fuel arbitrary: loc d)
  case 0
  then show ?case by simp
next
  case (Suc fuel)
  then show ?case
    by (auto split: prod.splits sum.splits if_splits)
qed

lemma reparse_modl_src:
  "src d = src d0 \<Longrightarrow> modl (snd (reparse E d)) = modl (snd (reparse E d0))"
  by (simp add: reparse_def Let_def log_def split: option.splits)

lemma reparse_Inl:
  "reparse E d = (Inl e, d') \<Longrightarrow> e = Logic_error ''Failed to parse assembly.''"
  by (auto simp: reparse_def Let_def split: option.splits)

lemma run_once_not_overflow:
  "run_once E TB d = (Inl e, d') \<Longrightarrow> e \<noteq> Signed_overflow"
  by (auto simp: run_once_def create_EE_def Let_def
           split: MemoryModel.splits sum.splits option.splits if_splits)

lemma loop_pass_Inl_in_range:
  assumes "loop_pass E (res, TB, cc) d = (Inl e, d1)"
    and "cc < INT_MAX" and "trace_count res < INT_MAX"
    and "sleepset_blocked_trace_count res < INT_MAX"
  shows "reparse E d = (Inl e, d1) \<or> (\<exists>dr. run_once E TB dr = (Inl e, d1))"
  using assms unfolding loop_pass_def incr_def
  by (auto simp: Let_def split: if_splits sum.splits prod.splits)

lemma loop_pass_no_overflow:
  assumes "loop_pass E (res, TB, cc) d = (Inl e, d1)"
    and "cc < INT_MAX" and "trace_count res < INT_MAX"
    and "sleepset_blocked_trace_count res < INT_MAX"
  shows "e \<noteq> Signed_overflow"
  using loop_pass_Inl_in_range [OF assms] reparse_Inl run_once_not_overflow
  by fastforce

lemma loop_pass_again_step:
  assumes p: "loop_pass E (res, TB, cc) d = (Inr (True, res1, TB1, cc1), d1)"
    and inv: "conf d = conf d0" "src d = src d0"
      "modl d = modl d0 \<or> modl d = modl (snd (reparse E d0))"
  shows "(TB1, TB) \<in> next_schedule E d0"
    and "conf d1 = conf d0" and "src d1 = src d0"
    and "modl d1 = modl d0 \<or> modl d1 = modl (snd (reparse E d0))"
proof -
  from p obtain dr t TB2 d2 where
    h: "if (cc + 1) mod 1000 = 0 then reparse E d = (Inr (), dr) else dr = d"
      "run_once E TB dr = (Inr (t, TB2), d2)"
      "if has_errors t \<and> \<not> explore_all_traces (conf d)
       then \<not> True \<and> TB1 = TB2 \<and>
            d1 = log [Call_sleepset_is_empty (sleepset_is_empty E TB2)] d2
       else reset E TB2 = (True, TB1) \<and>
            d1 = log [Call_reset True] (log [Call_sleepset_is_empty (sleepset_is_empty E TB2)] d2)"
    by (elim loop_pass_InrE) blast
  from h(3) have nb: "has_errors t \<longrightarrow> explore_all_traces (conf d)"
    and rs: "reset E TB2 = (True, TB1)"
    and d1: "d1 = log [Call_reset True] (log [Call_sleepset_is_empty (sleepset_is_empty E TB2)] d2)"
    by (auto split: if_splits)
  have dr: "conf dr = conf d0 \<and> src dr = src d0 \<and>
            (modl dr = modl d0 \<or> modl dr = modl (snd (reparse E d0)))"
  proof (cases "(cc + 1) mod 1000 = 0")
    case True
    with h(1) have rp: "reparse E d = (Inr (), dr)" by simp
    from reparse_frame [OF rp] inv(1,2)
    have "conf dr = conf d0 \<and> src dr = src d0" by simp
    moreover from rp reparse_modl_src [OF inv(2), of E]
    have "modl dr = modl (snd (reparse E d0))" by simp
    ultimately show ?thesis by simp
  next
    case False
    with h(1) inv show ?thesis by simp
  qed
  with h(2) nb rs inv(1) show "(TB1, TB) \<in> next_schedule E d0"
    unfolding next_schedule_def by auto
  from run_once_frame [OF h(2)] dr d1
  show "conf d1 = conf d0" "src d1 = src d0"
    "modl d1 = modl d0 \<or> modl d1 = modl (snd (reparse E d0))"
    by (auto simp: log_def)
qed

lemma run_loop_within:
  assumes "\<forall>TB'. (TB', TB) \<notin> next_schedule E d0 ^^ n"
    and "cc + int n \<le> INT_MAX"
    and "trace_count res \<le> cc" and "sleepset_blocked_trace_count res \<le> cc"
    and "conf d = conf d0" and "src d = src d0"
    and "modl d = modl d0 \<or> modl d = modl (snd (reparse E d0))"
  shows "\<exists>r d'. run_loop n E (res, TB, cc) d = Some (r, d') \<and> r \<noteq> Inl Signed_overflow"
  using assms
proof (induction n arbitrary: res TB cc d)
  case 0
  then show ?case by simp
next
  case (Suc n)
  have rng: "cc < INT_MAX" "trace_count res < INT_MAX"
    "sleepset_blocked_trace_count res < INT_MAX"
    using Suc.prems(2-4) by simp_all
  obtain r1 d1 where pass: "loop_pass E (res, TB, cc) d = (r1, d1)"
    by (cases "loop_pass E (res, TB, cc) d")
  show ?case
  proof (cases r1)
    case (Inl e)
    with pass have p: "loop_pass E (res, TB, cc) d = (Inl e, d1)" by simp
    from loop_pass_no_overflow [OF p rng] have "e \<noteq> Signed_overflow" .
    moreover from p have "run_loop (Suc n) E (res, TB, cc) d = Some (Inl e, d1)" by simp
    ultimately show ?thesis by simp
  next
    case (Inr x)
    obtain again res1 TB1 cc1 where x: "x = (again, res1, TB1, cc1)" by (cases x)
    show ?thesis
    proof (cases again)
      case False
      with pass Inr x have "run_loop (Suc n) E (res, TB, cc) d = Some (Inr (res1, TB1), d1)"
        by simp
      then show ?thesis by simp
    next
      case True
      with pass Inr x have p: "loop_pass E (res, TB, cc) d = (Inr (True, res1, TB1, cc1), d1)"
        by simp
      note step = loop_pass_again_step [OF p Suc.prems(5-7)]
      have chain: "\<forall>TB'. (TB', TB1) \<notin> next_schedule E d0 ^^ n"
      proof (intro allI notI)
        fix TB'
        assume "(TB', TB1) \<in> next_schedule E d0 ^^ n"
        from this step(1) have "(TB', TB) \<in> next_schedule E d0 ^^ Suc n"
          by (rule relpow_Suc_I)
        with Suc.prems(1) show False by blast
      qed
      from p have cnt: "cc1 = cc + 1" "trace_count res1 \<le> cc1"
        "sleepset_blocked_trace_count res1 \<le> cc1"
        using Suc.prems(3,4) by (elim loop_pass_Inr; simp split: if_splits)+
      have "cc1 + int n \<le> INT_MAX"
        using cnt(1) Suc.prems(2) by simp
      from Suc.IH [OF chain this cnt(2,3) step(2-4)] obtain r d' where
        "run_loop n E (res1, TB1, cc1) d1 = Some (r, d')" "r \<noteq> Inl Signed_overflow"
        by blast
      with p have "run_loop (Suc n) E (res, TB, cc) d = Some (r, d') \<and> r \<noteq> Inl Signed_overflow"
        by simp
      then show ?thesis by blast
    qed
  qed
qed

lemma relpow_decreasing:
  "(a, b) \<in> R ^^ n \<Longrightarrow> R \<subseteq> {(x, y). x < y} \<Longrightarrow> a + n \<le> (b::nat)"
proof (induction n arbitrary: b)
  case 0
  then show ?case by simp
next
  case (Suc n)
  from Suc.prems(1) obtain y where "(a, y) \<in> R ^^ n" "(y, b) \<in> R"
    by auto
  with Suc.IH [of y] Suc.prems(2) show ?case by auto
qed

lemma ex_run_once_keeps_TB:
  "run_once ex_collaborators TB d = (Inr (t, TB2), d2) \<Longrightarrow> TB2 = TB"
  by (auto simp: run_once_def create_EE_def ex_collaborators_def Let_def
           split: MemoryModel.splits sum.splits option.splits if_splits)

lemma ex_next_schedule_less:
  "next_schedule ex_collaborators d0 \<subseteq> {(x, y). x < y}"
proof
  fix x
  assume "x \<in> next_schedule ex_collaborators d0"
  then obtain TB3 TB d t TB2 d2 where x: "x = (TB3, TB)"
    and ro: "run_once ex_collaborators TB d = (Inr (t, TB2), d2)"
    and rs: "reset ex_collaborators TB2 = (True, TB3)"
    unfolding next_schedule_def by auto
  from ex_run_once_keeps_TB [OF ro] rs have "TB3 < TB"
    by (auto simp: ex_collaborators_def)
  with x show "x \<in> {(x, y). x < y}" by simp
qed

lemma run_once_Inr_effect:
  assumes "run_once E TB d = (Inr (t, TB'), d1)"
  shows "\<exists>EE. create_EE E TB d = Inr (Inr EE) \<and>
           TB' = snd (if check_robustness (conf d) then checkForCycles E (executed E EE TB)
                      else executed E EE TB) \<and>
           t = (if has_error E TB' \<or> debug_collect_all_traces (conf d)
                then getTrace E (if check_robustness (conf d)
                                 then checkForCycles E (executed E EE TB)
                                 else executed E EE TB)
                else empty_Trace)"
  using assms
  by (auto simp: run_once_def executed_def Let_def split: sum.splits option.splits if_splits)

lemma loop_pass_Inr_sleepset:
  assumes "loop_pass E (res, TB, cc) d = (Inr (again, res', TB', cc'), d1)"
  shows "\<exists>t TB2 d2.
           run_once E TB (if (cc + 1) mod 1000 = 0 then snd (reparse E d) else d) =
             (Inr (t, TB2), d2) \<and>
           trace_count res' = trace_count res + (if sleepset_is_empty E TB2 then 1 else 0) \<and>
           sleepset_blocked_trace_count res' =
             sleepset_blocked_trace_count res + (if sleepset_is_empty E TB2 then 0 else 1) \<and>
           (\<exists>pre post. calls_since d d1 =
              pre @ [Ret_run_once t, Call_sleepset_is_empty (sleepset_is_empty E TB2)] @ post)"
proof -
  from assms obtain dr t TB2 d2 res2 where
    h: "if (cc + 1) mod 1000 = 0 then reparse E d = (Inr (), dr) else dr = d"
    "run_once E TB dr = (Inr (t, TB2), d2)"
    "if sleepset_is_empty E TB2
     then trace_count res < INT_MAX \<and>
          res2 = (if debug_collect_all_traces (conf d)
                  then res\<lparr>all_traces := all_traces res @ [t]\<rparr> else res)
                 \<lparr>trace_count := trace_count res + 1\<rparr>
     else sleepset_blocked_trace_count res < INT_MAX \<and>
          res2 = (if debug_collect_all_traces (conf d)
                  then res\<lparr>all_traces := all_traces res @ [t]\<rparr> else res)
                 \<lparr>sleepset_blocked_trace_count := sleepset_blocked_trace_count res + 1\<rparr>"
    "res' = (if has_errors t \<and> \<not> res_has_errors res2 then res2\<lparr>error_trace := t\<rparr> else res2)"
    "if has_errors t \<and> \<not> explore_all_traces (conf d)
     then \<not> again \<and> TB' = TB2 \<and>
          d1 = log [Call_sleepset_is_empty (sleepset_is_empty E TB2)] d2
     else reset E TB2 = (again, TB') \<and>
          d1 = log [Call_reset again] (log [Call_sleepset_is_empty (sleepset_is_empty E TB2)] d2)"
    by (elim loop_pass_InrE) blast
  have dr: "dr = (if (cc + 1) mod 1000 = 0 then snd (reparse E d) else d)"
    using h(1) by (auto split: if_splits)
  have cnt: "trace_count res' = trace_count res + (if sleepset_is_empty E TB2 then 1 else 0)"
    "sleepset_blocked_trace_count res' =
       sleepset_blocked_trace_count res + (if sleepset_is_empty E TB2 then 0 else 1)"
    using h(3,4) by (auto split: if_splits)
  note pre = maybe_reparse_calls [OF h(1)]
  note cl = run_once_Inr_calls [OF h(2)]
  let ?b = "sleepset_is_empty E TB2"
  let ?pre = "reparse_calls cc @
     [Call_run_once, Call_create_EE, Call_runStaticConstructorsDestructors False,
      Call_getPointerToFunction, Call_runFunctionAsMain,
      Call_runStaticConstructorsDestructors True]
     @ (if check_robustness (conf dr) then [Call_checkForCycles] else [])
     @ (if has_error E TB2 \<or> debug_collect_all_traces (conf dr) then [Call_getTrace] else [])
     @ [Call_delete_EE]"
  let ?post = "if has_errors t \<and> \<not> explore_all_traces (conf d) then [] else [Call_reset again]"
  have "calls d1 = calls d @ ?pre @ [Ret_run_once t, Call_sleepset_is_empty ?b] @ ?post"
    using pre cl h(5) by (auto simp: log_def completed_run_calls_def split: if_splits)
  then have "calls_since d d1 = ?pre @ [Ret_run_once t, Call_sleepset_is_empty ?b] @ ?post"
    by (rule calls_sinceI)
  then have "\<exists>pre post. calls_since d d1 =
              pre @ [Ret_run_once t, Call_sleepset_is_empty ?b] @ post"
    by blast
  with h(2) cnt show ?thesis
    unfolding dr by blast
qed

subsection \<open>The two counters\<close>

text \<open>
  C2. A pass of the loop that ends normally has made one run, and it adds one to exactly
  one of the two counters: to \<open>trace_count\<close> when \<open>sleepset_is_empty\<close> holds of the trace
  builder as that run left it, to \<open>sleepset_blocked_trace_count\<close> when it does not; the
  answer written in the record of calls, right after the return of the run, is this
  answer. When \<open>run\<close> returns a Result, its \<open>trace_count\<close> is the number of runs after
  which the answer was ``empty'', its \<open>sleepset_blocked_trace_count\<close> the number of runs
  after which it was ``not empty'', and the two add up to the number of runs executed.
\<close>

theorem run_counts_each_run_once:
  "(loop_pass E (res, TB, cc) d = (Inr (again, res', TB', cc'), d1) \<longrightarrow>
      (\<exists>t TB2 d2.
         run_once E TB (if (cc + 1) mod 1000 = 0 then snd (reparse E d) else d) =
           (Inr (t, TB2), d2) \<and>
         trace_count res' = trace_count res + (if sleepset_is_empty E TB2 then 1 else 0) \<and>
         sleepset_blocked_trace_count res' =
           sleepset_blocked_trace_count res + (if sleepset_is_empty E TB2 then 0 else 1) \<and>
         (\<exists>pre post. calls_since d d1 =
            pre @ [Ret_run_once t, Call_sleepset_is_empty (sleepset_is_empty E TB2)] @ post))) \<and>
   (run fuel E d = Some (Inr result, d') \<longrightarrow>
      trace_count result = int (count_list (calls_since d d') (Call_sleepset_is_empty True)) \<and>
      sleepset_blocked_trace_count result =
        int (count_list (calls_since d d') (Call_sleepset_is_empty False)) \<and>
      trace_count result + sleepset_blocked_trace_count result =
        int (count_list (calls_since d d') Call_run_once))"
proof (intro conjI impI)
  assume "loop_pass E (res, TB, cc) d = (Inr (again, res', TB', cc'), d1)"
  then show "\<exists>t TB2 d2.
         run_once E TB (if (cc + 1) mod 1000 = 0 then snd (reparse E d) else d) =
           (Inr (t, TB2), d2) \<and>
         trace_count res' = trace_count res + (if sleepset_is_empty E TB2 then 1 else 0) \<and>
         sleepset_blocked_trace_count res' =
           sleepset_blocked_trace_count res + (if sleepset_is_empty E TB2 then 0 else 1) \<and>
         (\<exists>pre post. calls_since d d1 =
            pre @ [Ret_run_once t, Call_sleepset_is_empty (sleepset_is_empty E TB2)] @ post)"
    by (rule loop_pass_Inr_sleepset)
next
  assume "run fuel E d = Some (Inr result, d')"
  then have "trace_count result = int (count_list (calls_since d d') (Call_sleepset_is_empty True)) \<and>
      sleepset_blocked_trace_count result =
        int (count_list (calls_since d d') (Call_sleepset_is_empty False)) \<and>
      trace_count result + sleepset_blocked_trace_count result =
        int (count_list (calls_since d d') Call_run_once)"
  proof (cases rule: runE)
    case (returned res1 TB2 d2)
    from run_loop_counters [OF returned(2)] obtain new where
      new: "calls d2 = calls d @ [Call_new_TSOTraceBuilder, Call_setup_signal_handler] @ new"
        "trace_count res1 = int (count_list new (Call_sleepset_is_empty True))"
        "sleepset_blocked_trace_count res1 = int (count_list new (Call_sleepset_is_empty False))"
        "count_list new Call_run_once =
           count_list new (Call_sleepset_is_empty True) + count_list new (Call_sleepset_is_empty False)"
      by (auto simp: log_def new_Result_def)
    have "calls_since d d' =
            [Call_new_TSOTraceBuilder, Call_setup_signal_handler] @ new @
            [Call_reset_signal_handler, Call_delete_TB]"
      using returned(4) new(1) by (intro calls_sinceI) (simp add: log_def)
    with new returned(3) show ?thesis by simp
  qed simp_all
  then show "trace_count result = int (count_list (calls_since d d') (Call_sleepset_is_empty True))"
    and "sleepset_blocked_trace_count result =
        int (count_list (calls_since d d') (Call_sleepset_is_empty False))"
    and "trace_count result + sleepset_blocked_trace_count result =
        int (count_list (calls_since d d') Call_run_once)"
    by simp_all
qed

theorem run_counts_each_run_once_witness:
  "run 5 ex_collaborators (ex_state True) =
     Some (Inr (ex_result True), (ex_state True)\<lparr>calls := ex_calls True\<rparr>) \<and>
   trace_count (ex_result True) = 3 \<and>
   sleepset_blocked_trace_count (ex_result True) = 1 \<and>
   count_list (ex_calls True) Call_run_once = 4 \<and>
   sleepset_is_empty ex_blocking_collaborators 3 \<and>
   \<not> sleepset_is_empty ex_blocking_collaborators 1 \<and>
   run_once ex_blocking_collaborators 3 (ex_state True) =
     (Inr (ex_trace 1, 1),
      (ex_state True)\<lparr>calls := completed_run_calls (ex_conf True) True (ex_trace 1)\<rparr>) \<and>
   loop_pass ex_blocking_collaborators (new_Result, 3, 0) (ex_state True) =
     (Inr (True, new_Result\<lparr>sleepset_blocked_trace_count := 1, error_trace := ex_trace 1\<rparr>, 0, 1),
      (ex_state True)\<lparr>calls := completed_run_calls (ex_conf True) True (ex_trace 1)
                                 @ [Call_sleepset_is_empty False, Call_reset True]\<rparr>)"
proof -
  have 1: "run_once ex_blocking_collaborators 3 (ex_state True) =
     (Inr (ex_trace 1, 1),
      (ex_state True)\<lparr>calls := completed_run_calls (ex_conf True) True (ex_trace 1)\<rparr>)"
    by (simp add: run_once_def create_EE_def ex_state_def ex_conf_def ex_collaborators_def
        ex_blocking_collaborators_def log_def Let_def completed_run_calls_def)
  have 2: "loop_pass ex_blocking_collaborators (new_Result, 3, 0) (ex_state True) =
     (Inr (True, new_Result\<lparr>sleepset_blocked_trace_count := 1, error_trace := ex_trace 1\<rparr>, 0, 1),
      (ex_state True)\<lparr>calls := completed_run_calls (ex_conf True) True (ex_trace 1)
                                 @ [Call_sleepset_is_empty False, Call_reset True]\<rparr>)"
    by (simp add: ex_state_def ex_conf_def ex_collaborators_def ex_blocking_collaborators_def
        loop_pass_def run_once_def create_EE_def incr_def INT_MAX_def log_def new_Result_def
        Let_def has_errors_def res_has_errors_def empty_Trace_def ex_trace_def
        completed_run_calls_def)
  have 3: "sleepset_is_empty ex_blocking_collaborators 3 \<and>
           \<not> sleepset_is_empty ex_blocking_collaborators 1"
    by (simp add: ex_blocking_collaborators_def ex_collaborators_def)
  note whole = run_counts_each_run_once
    [where E = ex_collaborators and d = "ex_state True" and fuel = 5
       and result = "ex_result True" and d' = "(ex_state True)\<lparr>calls := ex_calls True\<rparr>"]
  note pass = run_counts_each_run_once
    [where E = ex_blocking_collaborators and d = "ex_state True" and res = new_Result
       and TB = 3 and cc = 0 and again = True
       and res' = "new_Result\<lparr>sleepset_blocked_trace_count := 1, error_trace := ex_trace 1\<rparr>"
       and TB' = 0 and cc' = 1
       and ?d1.0 = "(ex_state True)\<lparr>calls := completed_run_calls (ex_conf True) True (ex_trace 1)
                                 @ [Call_sleepset_is_empty False, Call_reset True]\<rparr>"]
  from whole pass ex_run [of True] 1 2 3 show ?thesis
    by (simp add: ex_result_def calls_since_def ex_state_def)
qed

subsection \<open>The trace that a run returns\<close>



subsection \<open>The robustness check\<close>

text \<open>
  C7. A run that reaches its end hands back the trace builder as \<open>checkForCycles\<close> left
  it, applied to the engine once \<open>main\<close> and the static destructors have run, when
  \<open>conf.check_robustness\<close> is set, and the trace builder as the static destructors left
  it, with no check applied, when it is not; the trace it asks for is taken from the same
  state. It calls \<open>checkForCycles\<close> once, right after the static destructors, when the
  option is set, and not at all when it is not; a run that throws does not call it. Over
  a whole exploration the number of robustness checks is the number of completed runs
  when the option is set and zero when it is not.
\<close>

theorem robustness_check_iff_enabled:
  "(run_once E TB d = (Inr (t, TB'), d1) \<longrightarrow>
      (\<exists>EE. create_EE E TB d = Inr (Inr EE) \<and>
         TB' = snd (if check_robustness (conf d) then checkForCycles E (executed E EE TB)
                    else executed E EE TB) \<and>
         t = (if has_error E TB' \<or> debug_collect_all_traces (conf d)
              then getTrace E (if check_robustness (conf d)
                               then checkForCycles E (executed E EE TB)
                               else executed E EE TB)
              else empty_Trace)) \<and>
      count_list (calls_since d d1) Call_checkForCycles =
        (if check_robustness (conf d) then 1 else 0) \<and>
      (check_robustness (conf d) \<longrightarrow>
         (\<exists>pre post. calls_since d d1 =
              pre @ [Call_runStaticConstructorsDestructors True, Call_checkForCycles] @ post \<and>
            Call_runFunctionAsMain \<in> set pre \<and> Call_runFunctionAsMain \<notin> set post))) \<and>
   (run_once E TB d = (Inl e, d1) \<longrightarrow> Call_checkForCycles \<notin> set (calls_since d d1)) \<and>
   (run fuel E d = Some (r, d') \<longrightarrow>
      count_list (calls_since d d') Call_checkForCycles =
        (if check_robustness (conf d)
         then length (returned_traces (calls_since d d')) else 0) \<and>
      (\<not> check_robustness (conf d) \<longrightarrow> Call_checkForCycles \<notin> set (calls_since d d')))"
proof (intro conjI impI)
  assume a: "run_once E TB d = (Inr (t, TB'), d1)"
  show "\<exists>EE. create_EE E TB d = Inr (Inr EE) \<and>
         TB' = snd (if check_robustness (conf d) then checkForCycles E (executed E EE TB)
                    else executed E EE TB) \<and>
         t = (if has_error E TB' \<or> debug_collect_all_traces (conf d)
              then getTrace E (if check_robustness (conf d)
                               then checkForCycles E (executed E EE TB)
                               else executed E EE TB)
              else empty_Trace)"
    by (rule run_once_Inr_effect [OF a])
  show "count_list (calls_since d d1) Call_checkForCycles =
        (if check_robustness (conf d) then 1 else 0)"
    by (simp add: run_once_calls_since [OF a] completed_run_calls_def)
  assume "check_robustness (conf d)"
  then have "calls_since d d1 =
      [Call_run_once, Call_create_EE, Call_runStaticConstructorsDestructors False,
       Call_getPointerToFunction, Call_runFunctionAsMain]
      @ [Call_runStaticConstructorsDestructors True, Call_checkForCycles]
      @ ((if has_error E TB' \<or> debug_collect_all_traces (conf d) then [Call_getTrace] else [])
         @ [Call_delete_EE, Ret_run_once t])"
    by (simp add: run_once_calls_since [OF a] completed_run_calls_def)
  then show "\<exists>pre post. calls_since d d1 =
              pre @ [Call_runStaticConstructorsDestructors True, Call_checkForCycles] @ post \<and>
            Call_runFunctionAsMain \<in> set pre \<and> Call_runFunctionAsMain \<notin> set post"
    by (intro exI [of _ "[Call_run_once, Call_create_EE, Call_runStaticConstructorsDestructors False,
       Call_getPointerToFunction, Call_runFunctionAsMain]"] exI [of _ "(if has_error E TB' \<or> debug_collect_all_traces (conf d) then [Call_getTrace] else [])
         @ [Call_delete_EE, Ret_run_once t]"]) simp
next
  assume "run_once E TB d = (Inl e, d1)"
  from run_once_Inl_calls [OF this]
  show "Call_checkForCycles \<notin> set (calls_since d d1)"
    by (auto simp: calls_since_def)
next
  assume a: "run fuel E d = Some (r, d')"
  then show c: "count_list (calls_since d d') Call_checkForCycles =
        (if check_robustness (conf d)
         then length (returned_traces (calls_since d d')) else 0)"
  proof (cases rule: run_calls_since)
    case unsupported
    then show ?thesis by simp
  next
    case (failed e d1 new)
    from run_loop_checks [OF failed(3)] failed(5) failed(2)
    have "count_list new Call_checkForCycles =
             (if check_robustness (conf d) then length (returned_traces new) else 0)"
      by (auto simp: log_def)
    with failed(6) show ?thesis by simp
  next
    case (returned res TB2 d1 d2 new)
    from run_loop_checks [OF returned(3)] returned(5) returned(2)
    have "count_list new Call_checkForCycles =
             (if check_robustness (conf d) then length (returned_traces new) else 0)"
      by (auto simp: log_def)
    with returned(7) show ?thesis by simp
  qed
  assume "\<not> check_robustness (conf d)"
  with c have "count_list (calls_since d d') Call_checkForCycles = 0" by simp
  then show "Call_checkForCycles \<notin> set (calls_since d d')"
    by (simp add: count_list_0_iff)
qed

theorem robustness_check_iff_enabled_witness:
  "run 5 ex_collaborators (ex_state True) =
     Some (Inr (ex_result True), (ex_state True)\<lparr>calls := ex_calls True\<rparr>) \<and>
   check_robustness (conf (ex_state True)) \<and>
   count_list (ex_calls True) Call_checkForCycles = 4 \<and>
   length (returned_traces (ex_calls True)) = 4 \<and>
   executed ex_cycle_collaborators () 3 = ((), 3) \<and>
   checkForCycles ex_cycle_collaborators ((), 3) = ((), 2) \<and>
   run_once ex_cycle_collaborators 3 (ex_state True) =
     (Inr (ex_trace 2, 2),
      (ex_state True)\<lparr>calls := completed_run_calls (ex_conf True) True (ex_trace 2)\<rparr>) \<and>
   count_list (completed_run_calls (ex_conf True) True (ex_trace 2)) Call_checkForCycles = 1 \<and>
   run_once ex_cycle_collaborators 3
       ((ex_state True)\<lparr>conf := (ex_conf True)\<lparr>check_robustness := False\<rparr>\<rparr>) =
     (Inr (empty_Trace, 3),
      (ex_state True)\<lparr>conf := (ex_conf True)\<lparr>check_robustness := False\<rparr>,
         calls := [Call_run_once, Call_create_EE, Call_runStaticConstructorsDestructors False,
                   Call_getPointerToFunction, Call_runFunctionAsMain,
                   Call_runStaticConstructorsDestructors True, Call_delete_EE,
                   Ret_run_once empty_Trace]\<rparr>) \<and>
   run_once ex_collaborators 3 (ex_nomain_state\<lparr>calls := []\<rparr>) =
     (Inl (Logic_error ''No main function found in module.''),
      ex_nomain_state\<lparr>calls := [Call_run_once, Call_create_EE]\<rparr>)"
proof -
  let ?off = "(ex_state True)\<lparr>conf := (ex_conf True)\<lparr>check_robustness := False\<rparr>\<rparr>"
  have 0: "executed ex_cycle_collaborators () 3 = ((), 3) \<and>
           checkForCycles ex_cycle_collaborators ((), 3) = ((), 2)"
    by (simp add: executed_def ex_cycle_collaborators_def ex_collaborators_def)
  have 1: "run_once ex_cycle_collaborators 3 (ex_state True) =
     (Inr (ex_trace 2, 2),
      (ex_state True)\<lparr>calls := completed_run_calls (ex_conf True) True (ex_trace 2)\<rparr>)"
    by (simp add: run_once_def create_EE_def ex_state_def ex_conf_def ex_collaborators_def
        ex_cycle_collaborators_def log_def Let_def completed_run_calls_def)
  have 2: "run_once ex_cycle_collaborators 3 ?off =
     (Inr (empty_Trace, 3),
      ?off\<lparr>calls := [Call_run_once, Call_create_EE, Call_runStaticConstructorsDestructors False,
                   Call_getPointerToFunction, Call_runFunctionAsMain,
                   Call_runStaticConstructorsDestructors True, Call_delete_EE,
                   Ret_run_once empty_Trace]\<rparr>)"
    by (simp add: run_once_def create_EE_def ex_state_def ex_conf_def ex_collaborators_def
        ex_cycle_collaborators_def log_def Let_def)
  have 3: "run_once ex_collaborators 3 (ex_nomain_state\<lparr>calls := []\<rparr>) =
     (Inl (Logic_error ''No main function found in module.''),
      ex_nomain_state\<lparr>calls := [Call_run_once, Call_create_EE]\<rparr>)"
    by (simp add: run_once_def create_EE_def ex_nomain_state_def ex_conf_def
        ex_collaborators_def log_def Let_def)
  note whole = robustness_check_iff_enabled
    [where E = ex_collaborators and d = "ex_state True" and fuel = 5
       and r = "Inr (ex_result True)" and d' = "(ex_state True)\<lparr>calls := ex_calls True\<rparr>"]
  note on = robustness_check_iff_enabled
    [where E = ex_cycle_collaborators and d = "ex_state True"
       and TB = 3 and t = "ex_trace 2" and TB' = 2
       and ?d1.0 = "(ex_state True)\<lparr>calls := completed_run_calls (ex_conf True) True (ex_trace 2)\<rparr>"]
  note off = robustness_check_iff_enabled
    [where E = ex_cycle_collaborators and d = ?off and TB = 3 and t = empty_Trace and TB' = 3
       and ?d1.0 = "?off\<lparr>calls := [Call_run_once, Call_create_EE,
                   Call_runStaticConstructorsDestructors False,
                   Call_getPointerToFunction, Call_runFunctionAsMain,
                   Call_runStaticConstructorsDestructors True, Call_delete_EE,
                   Ret_run_once empty_Trace]\<rparr>"]
  note thrown = robustness_check_iff_enabled
    [where E = ex_collaborators and d = "ex_nomain_state\<lparr>calls := []\<rparr>" and TB = 3
       and e = "Logic_error ''No main function found in module.''"
       and ?d1.0 = "ex_nomain_state\<lparr>calls := [Call_run_once, Call_create_EE]\<rparr>"]
  from whole on off thrown ex_run [of True] 0 1 2 3
  show ?thesis
    by (simp add: calls_since_def ex_state_def ex_conf_def ex_calls_def completed_run_calls_def)
qed

subsection \<open>The crash handler\<close>

text \<open>
  C8. When \<open>run\<close> returns a Result, the calls it made are: the creation of the trace
  builder, the installation of the SIGSEGV handler, then the calls of the loop, among
  them every run and no call that installs or resets the handler, then the reset of the
  handler and the deletion of the trace builder; so the handler is installed before the
  first run, stays installed across all runs and is reset after the loop, before the
  Result is returned.
\<close>

theorem run_keeps_handler_during_exploration:
  assumes "run fuel E d = Some (Inr res, d')"
  shows "\<exists>body. calls_since d d' =
             [Call_new_TSOTraceBuilder, Call_setup_signal_handler] @ body @
             [Call_reset_signal_handler, Call_delete_TB] \<and>
           Call_setup_signal_handler \<notin> set body \<and> Call_reset_signal_handler \<notin> set body \<and>
           Call_run_once \<in> set body \<and>
           count_list body Call_run_once = count_list (calls_since d d') Call_run_once \<and>
           \<not> handler_installed d'"
  using assms
proof (cases rule: run_calls_since)
  case (returned res1 TB2 d1 d2 new)
  from run_loop_handler [OF returned(3)] returned(5)
  have "Call_setup_signal_handler \<notin> set new \<and> Call_reset_signal_handler \<notin> set new \<and>
        Call_run_once \<in> set new"
    by auto
  with returned(6,7) show ?thesis
    by (intro exI [of _ new]) simp
qed simp_all

theorem run_keeps_handler_during_exploration_witness:
  "run 5 ex_collaborators (ex_state False) =
     Some (Inr (ex_result False), (ex_state False)\<lparr>calls := ex_calls False\<rparr>) \<and>
   (\<exists>body. ex_calls False =
             [Call_new_TSOTraceBuilder, Call_setup_signal_handler] @ body @
             [Call_reset_signal_handler, Call_delete_TB] \<and>
           Call_setup_signal_handler \<notin> set body \<and> Call_reset_signal_handler \<notin> set body \<and>
           Call_run_once \<in> set body) \<and>
   \<not> handler_installed ((ex_state False)\<lparr>calls := ex_calls False\<rparr>)"
  using ex_run [of False] run_keeps_handler_during_exploration [OF ex_run [of False]]
  by (simp add: calls_since_def ex_state_def) blast

subsection \<open>Exceptions from the loop\<close>



subsection \<open>Fatal errors of the input module\<close>

text \<open>
  C6. A source text that the parser rejects makes \<open>parseIR\<close> and \<open>parseIRFile\<close> throw
  ``Failed to parse assembly.'', having called nothing but \<open>reparse\<close>, so no driver is
  handed out and no run takes place. A module without a function \<open>main\<close> makes every
  \<open>run_once\<close> throw before it calls any of the engine's functions that execute the
  program; when the engine can be created, the first pass of \<open>run\<close> throws ``No main
  function found in module.'', a message different from that of the parser.
\<close>

theorem fatal_errors_before_any_run:
  "(ParseIR E llvm_asm = None \<longrightarrow>
      parseIR E llvm_asm C w =
        (Inl (Logic_error ''Failed to parse assembly.''),
         w\<lparr>conf := C, src := llvm_asm, modl := None, calls := calls w @ [Call_reparse]\<rparr>)) \<and>
   (files E filename = Some (Regular contents) \<and> ParseIR E contents = None \<longrightarrow>
      parseIRFile E filename C w =
        (Inl (Logic_error ''Failed to parse assembly.''),
         w\<lparr>conf := C, src := contents, modl := None, calls := calls w @ [Call_reparse]\<rparr>)) \<and>
   (modl d = Some m \<and> ''main'' \<notin> set (function_names m) \<longrightarrow>
      (\<forall>TB r d'. run_once E TB d = (r, d') \<longrightarrow>
         (\<exists>e. r = Inl e) \<and>
         (calls_since d d' = [Call_run_once] \<or> calls_since d d' = [Call_run_once, Call_create_EE])) \<and>
      (\<forall>EE. create_EE E (new_TSOTraceBuilder E (conf d)) d = Inr (Inr EE) \<longrightarrow>
         run (Suc fuel) E d =
           Some (Inl (Logic_error ''No main function found in module.''),
                 d\<lparr>handler_installed := True,
                    calls := calls d @ [Call_new_TSOTraceBuilder, Call_setup_signal_handler,
                                        Call_run_once, Call_create_EE]\<rparr>)))"
proof (intro conjI impI allI)
  assume "ParseIR E llvm_asm = None"
  then show "parseIR E llvm_asm C w =
        (Inl (Logic_error ''Failed to parse assembly.''),
         w\<lparr>conf := C, src := llvm_asm, modl := None, calls := calls w @ [Call_reparse]\<rparr>)"
    by (simp add: parseIR_def new_DPORDriver_def reparse_def log_def Let_def)
next
  assume "files E filename = Some (Regular contents) \<and> ParseIR E contents = None"
  then show "parseIRFile E filename C w =
        (Inl (Logic_error ''Failed to parse assembly.''),
         w\<lparr>conf := C, src := contents, modl := None, calls := calls w @ [Call_reparse]\<rparr>)"
    by (simp add: parseIRFile_def read_file_def new_DPORDriver_def reparse_def log_def Let_def)
next
  fix TB r d'
  assume nomain: "modl d = Some m \<and> ''main'' \<notin> set (function_names m)"
    and ro: "run_once E TB d = (r, d')"
  from nomain ro show "\<exists>e. r = Inl e"
    by (auto simp: run_once_def Let_def split: sum.splits if_splits)
  then obtain e where "r = Inl e" ..
  with ro have "run_once E TB d = (Inl e, d')" by simp
  from run_once_Inl_calls [OF this]
  show "calls_since d d' = [Call_run_once] \<or> calls_since d d' = [Call_run_once, Call_create_EE]"
    by (auto simp: calls_since_def)
next
  fix EE
  assume nomain: "modl d = Some m \<and> ''main'' \<notin> set (function_names m)"
    and ee: "create_EE E (new_TSOTraceBuilder E (conf d)) d = Inr (Inr EE)"
  let ?d1 = "(log [Call_new_TSOTraceBuilder, Call_setup_signal_handler] d)
               \<lparr>handler_installed := True\<rparr>"
  have mm: "memory_model (conf d) \<noteq> MM_UNDEF"
    using ee by (auto simp: create_EE_def split: MemoryModel.splits)
  have "create_EE E (new_TSOTraceBuilder E (conf d)) ?d1 =
        create_EE E (new_TSOTraceBuilder E (conf d)) d"
    by (rule create_EE_cong) (simp_all add: log_def)
  with ee have "create_EE E (new_TSOTraceBuilder E (conf d)) ?d1 = Inr (Inr EE)"
    by simp
  with nomain have "run_once E (new_TSOTraceBuilder E (conf d)) ?d1 =
      (Inl (Logic_error ''No main function found in module.''),
       log [Call_create_EE] (log [Call_run_once] ?d1))"
    by (simp add: run_once_def Let_def log_def)
  then have "loop_pass E (new_Result, new_TSOTraceBuilder E (conf d), 0) ?d1 =
      (Inl (Logic_error ''No main function found in module.''),
       log [Call_create_EE] (log [Call_run_once] ?d1))"
    by (simp add: loop_pass_def incr_def INT_MAX_def)
  with mm show "run (Suc fuel) E d =
           Some (Inl (Logic_error ''No main function found in module.''),
                 d\<lparr>handler_installed := True,
                    calls := calls d @ [Call_new_TSOTraceBuilder, Call_setup_signal_handler,
                                        Call_run_once, Call_create_EE]\<rparr>)"
    by (cases "memory_model (conf d)") (simp_all add: run_def Let_def log_def)
qed

theorem fatal_errors_before_any_run_witness:
  "ParseIR ex_collaborators ''?'' = None \<and>
   parseIR ex_collaborators ''?'' (ex_conf True) (ex_state False) =
     (Inl (Logic_error ''Failed to parse assembly.''),
      (ex_state False)\<lparr>conf := ex_conf True, src := ''?'', modl := None, calls := [Call_reparse]\<rparr>) \<and>
   files ex_collaborators ''bad.ll'' = Some (Regular ''?'') \<and>
   parseIRFile ex_collaborators ''bad.ll'' (ex_conf True) (ex_state False) =
     (Inl (Logic_error ''Failed to parse assembly.''),
      (ex_state False)\<lparr>conf := ex_conf True, src := ''?'', modl := None, calls := [Call_reparse]\<rparr>) \<and>
   parseIR ex_collaborators ''f'' (ex_conf True) (ex_state False) = (Inr (), ex_nomain_state) \<and>
   run 1 ex_collaborators ex_nomain_state =
     Some (Inl (Logic_error ''No main function found in module.''),
           ex_nomain_state\<lparr>handler_installed := True,
              calls := [Call_reparse, Call_new_TSOTraceBuilder, Call_setup_signal_handler,
                        Call_run_once, Call_create_EE]\<rparr>)"
proof -
  have 1: "ParseIR ex_collaborators ''?'' = None"
    and 2: "files ex_collaborators ''bad.ll'' = Some (Regular ''?'') \<and>
            ParseIR ex_collaborators ''?'' = None"
    by (simp_all add: ex_collaborators_def)
  have 3: "modl ex_nomain_state = Some \<lparr>data_layout = ''e'', function_names = [''f'']\<rparr> \<and>
           ''main'' \<notin> set (function_names \<lparr>data_layout = ''e'', function_names = [''f'']\<rparr>)"
    by (simp add: ex_nomain_state_def)
  have 4: "create_EE ex_collaborators (new_TSOTraceBuilder ex_collaborators (conf ex_nomain_state))
             ex_nomain_state = Inr (Inr ())"
    by (simp add: create_EE_def ex_nomain_state_def ex_conf_def ex_collaborators_def)
  have 5: "parseIR ex_collaborators ''f'' (ex_conf True) (ex_state False) = (Inr (), ex_nomain_state)"
    by (simp add: parseIR_def new_DPORDriver_def reparse_def CheckModule_check_functions_def
        log_def Let_def ex_collaborators_def ex_state_def ex_nomain_state_def)
  note inst = fatal_errors_before_any_run
    [where E = ex_collaborators and llvm_asm = "''?''" and C = "ex_conf True"
       and w = "ex_state False" and filename = "''bad.ll''" and contents = "''?''"
       and d = ex_nomain_state and m = "\<lparr>data_layout = ''e'', function_names = [''f'']\<rparr>"
       and fuel = 0]
  from inst 1 2 3 4 5 show ?thesis
    by (simp add: ex_state_def ex_nomain_state_def)
qed

subsection \<open>The error trace\<close>

text \<open>
  C4. When \<open>run\<close> returns a Result, its \<open>error_trace\<close> is the trace of the first run of
  the exploration whose trace has errors, whatever later runs returned, and the empty
  trace, which has no errors, when no run returned a trace with errors.
\<close>

theorem error_trace_is_first_erroneous_trace:
  assumes "run fuel E d = Some (Inr res, d')"
  shows "error_trace res =
           (case find has_errors (returned_traces (calls_since d d')) of
              None \<Rightarrow> empty_Trace | Some t \<Rightarrow> t) \<and>
         (res_has_errors res \<longleftrightarrow> (\<exists>t \<in> set (returned_traces (calls_since d d')). has_errors t))"
  using assms
proof (cases rule: run_calls_since)
  case (returned res1 TB2 d1 d2 new)
  have rt: "returned_traces (calls_since d d') = returned_traces new"
    using returned(7) by simp
  have 0: "\<not> has_errors empty_Trace"
    by (simp add: has_errors_def empty_Trace_def)
  have none: "first_erroneous ts = empty_Trace" if "\<not> (\<exists>t \<in> set ts. has_errors t)" for ts
    using that by (induction ts) auto
  have some: "has_errors (first_erroneous ts)" if "\<exists>t \<in> set ts. has_errors t" for ts
    using that by (induction ts) auto
  from run_loop_error_trace [OF returned(3)] returned(5)
  have "error_trace res1 =
          (if \<not> (\<exists>t \<in> set (returned_traces new). has_errors t)
           then empty_Trace else first_erroneous (returned_traces new))"
    using 0 by (auto simp: res_has_errors_def new_Result_def)
  with none [of "returned_traces new"]
  have 1: "error_trace res1 = first_erroneous (returned_traces new)"
    by auto
  with none [of "returned_traces new"] some [of "returned_traces new"] 0
  have 2: "res_has_errors res1 \<longleftrightarrow> (\<exists>t \<in> set (returned_traces new). has_errors t)"
    unfolding res_has_errors_def by metis
  from 1 2 returned(4) show ?thesis
    unfolding rt by (simp add: first_erroneous_def)
qed simp_all

theorem error_trace_is_first_erroneous_trace_witness:
  "run 5 ex_collaborators (ex_state True) =
     Some (Inr (ex_result True), (ex_state True)\<lparr>calls := ex_calls True\<rparr>) \<and>
   returned_traces (ex_calls True) = [empty_Trace, ex_trace 2, ex_trace 1, empty_Trace] \<and>
   has_errors (ex_trace 2) \<and> has_errors (ex_trace 1) \<and>
   error_trace (ex_result True) = ex_trace 2 \<and> ex_trace 2 \<noteq> ex_trace 1"
  using ex_run [of True] error_trace_is_first_erroneous_trace [OF ex_run [of True]]
  by (simp add: calls_since_def ex_state_def ex_result_def ex_calls_def completed_run_calls_def
      has_errors_def ex_trace_def empty_Trace_def)


subsection \<open>Stopping at the first error\<close>

text \<open>
  C1. When \<open>explore_all_traces\<close> is off and \<open>run\<close> returns a Result, the return of the
  first run whose trace has errors is followed by the query of the sleep set, the reset of
  the handler and the deletion of the trace builder only: no further run and no call of
  \<open>reset\<close>. When \<open>explore_all_traces\<close> is on, every run, erroneous or not, is followed by a
  call of \<open>reset\<close>; all these calls but the last answer that a schedule remains, and the
  last one reports exhaustion.
\<close>

theorem stop_at_first_error_or_explore_all:
  assumes "run fuel E d = Some (Inr res, d')"
  shows "(\<not> explore_all_traces (conf d) \<longrightarrow>
            (\<forall>post. after_first_error (calls_since d d') = Some post \<longrightarrow>
               (\<exists>b. post = [Call_sleepset_is_empty b, Call_reset_signal_handler, Call_delete_TB]))) \<and>
         (explore_all_traces (conf d) \<longrightarrow>
            returned_traces (calls_since d d') \<noteq> [] \<and>
            reset_answers (calls_since d d') =
              replicate (length (returned_traces (calls_since d d')) - 1) True @ [False])"
  using assms
proof (cases rule: run_calls_since)
  case (returned res1 TB2 d1 d2 new)
  have cf: "conf d1 = conf d"
    using returned(2) by (simp add: log_def)
  show ?thesis
  proof (intro conjI impI allI)
    fix post
    assume na: "\<not> explore_all_traces (conf d)"
      and af: "after_first_error (calls_since d d') = Some post"
    from run_loop_stops_at_first_error [OF returned(3)] na cf returned(5)
    have *: "\<forall>post. after_first_error new = Some post \<longrightarrow>
                 (\<exists>b. post = [Call_sleepset_is_empty b])"
      by auto
    from af returned(7) show "\<exists>b. post = [Call_sleepset_is_empty b, Call_reset_signal_handler, Call_delete_TB]"
      using * by (auto simp: after_first_error_append split: option.splits)
  next
    assume all: "explore_all_traces (conf d)"
    from run_loop_explores_all [OF returned(3)] all cf returned(5)
    have *: "returned_traces new \<noteq> [] \<and>
             reset_answers new = replicate (length (returned_traces new) - 1) True @ [False]"
      by auto
    with returned(7) show "returned_traces (calls_since d d') \<noteq> []"
      and "reset_answers (calls_since d d') =
              replicate (length (returned_traces (calls_since d d')) - 1) True @ [False]"
      by simp_all
  qed
qed simp_all

theorem stop_at_first_error_or_explore_all_witness:
  "run 5 ex_collaborators (ex_state False) =
     Some (Inr (ex_result False), (ex_state False)\<lparr>calls := ex_calls False\<rparr>) \<and>
   \<not> explore_all_traces (conf (ex_state False)) \<and>
   after_first_error (ex_calls False) =
     Some [Call_sleepset_is_empty True, Call_reset_signal_handler, Call_delete_TB] \<and>
   run 5 ex_collaborators (ex_state True) =
     Some (Inr (ex_result True), (ex_state True)\<lparr>calls := ex_calls True\<rparr>) \<and>
   explore_all_traces (conf (ex_state True)) \<and>
   returned_traces (ex_calls True) = [empty_Trace, ex_trace 2, ex_trace 1, empty_Trace] \<and>
   reset_answers (ex_calls True) = [True, True, True, False]"
  using ex_run [of False] stop_at_first_error_or_explore_all [OF ex_run [of False]]
    ex_run [of True] stop_at_first_error_or_explore_all [OF ex_run [of True]]
  by (simp add: calls_since_def ex_state_def ex_conf_def ex_calls_def completed_run_calls_def
      has_errors_def ex_trace_def empty_Trace_def)

subsection \<open>Rebuilding the module\<close>

text \<open>
  C5. Over an exploration that returns a Result, \<open>reparse\<close> is called right before the
  run number \<open>k\<close> exactly when 1000 divides \<open>k\<close>, and nowhere else. A pass of the loop
  begun with \<open>computation_count = cc\<close> calls \<open>reparse\<close> first when 1000 divides \<open>cc + 1\<close>
  and does not call it otherwise; the run of that pass starts from the trace builder the
  pass was given and from the state that \<open>reparse\<close> left. \<open>reparse\<close> replaces the module
  by what the parser makes of the stored source text and changes nothing else of the
  state.
\<close>

theorem reparse_before_every_1000th_run:
  "(run fuel E d = Some (Inr result, d') \<longrightarrow>
      reparse_pattern 0 False (calls_since d d')) \<and>
   (loop_pass E (res, TB, cc) d = (r, d1) \<and> cc < INT_MAX \<longrightarrow>
      (\<exists>rest. calls_since d d1 =
                 (if (cc + 1) mod 1000 = 0 then [Call_reparse] else []) @ rest \<and>
               Call_reparse \<notin> set rest)) \<and>
   (loop_pass E (res, TB, cc) d = (Inr x, d1) \<longrightarrow>
      (\<exists>dr t TB2 d2. (if (cc + 1) mod 1000 = 0 then reparse E d = (Inr (), dr) else dr = d) \<and>
         run_once E TB dr = (Inr (t, TB2), d2))) \<and>
   (reparse E d = (u, dr) \<longrightarrow>
      dr = d\<lparr>modl := map_option (default_data_layout E) (ParseIR E (src d)),
             calls := calls d @ [Call_reparse]\<rparr>)"
proof (intro conjI impI)
  assume "run fuel E d = Some (Inr result, d')"
  then show "reparse_pattern 0 False (calls_since d d')"
  proof (cases rule: run_calls_since)
    case (returned res1 TB2 d1 d2 new)
    from run_loop_reparse_pattern [OF returned(3)] returned(5) obtain k where
      "\<forall>rest. reparse_pattern 0 False (new @ rest) = reparse_pattern k False rest"
      by auto
    then have "reparse_pattern 0 False (new @ [Call_reset_signal_handler, Call_delete_TB])"
      by simp
    with returned(7) show ?thesis
      by simp
  qed simp_all
next
  assume a: "loop_pass E (res, TB, cc) d = (r, d1) \<and> cc < INT_MAX"
  from loop_pass_reparse_first [OF conjunct1 [OF a] conjunct2 [OF a]]
  show "\<exists>rest. calls_since d d1 =
                 (if (cc + 1) mod 1000 = 0 then [Call_reparse] else []) @ rest \<and>
               Call_reparse \<notin> set rest"
    by (auto simp: calls_since_def reparse_calls_def)
next
  assume a: "loop_pass E (res, TB, cc) d = (Inr x, d1)"
  obtain again res1 TB1 cc1 where "x = (again, res1, TB1, cc1)" by (cases x)
  with a have "loop_pass E (res, TB, cc) d = (Inr (again, res1, TB1, cc1), d1)" by simp
  then show "\<exists>dr t TB2 d2. (if (cc + 1) mod 1000 = 0 then reparse E d = (Inr (), dr) else dr = d) \<and>
         run_once E TB dr = (Inr (t, TB2), d2)"
    by (elim loop_pass_InrE) blast
next
  assume "reparse E d = (u, dr)"
  then show "dr = d\<lparr>modl := map_option (default_data_layout E) (ParseIR E (src d)),
             calls := calls d @ [Call_reparse]\<rparr>"
    by (auto simp: reparse_def log_def Let_def default_data_layout_def split: option.splits)
qed


theorem reparse_before_every_1000th_run_witness:
  "run 5 ex_collaborators (ex_state True) =
     Some (Inr (ex_result True), (ex_state True)\<lparr>calls := ex_calls True\<rparr>) \<and>
   reparse_pattern 0 False (ex_calls True) \<and>
   loop_pass ex_collaborators (new_Result, 3, 999) (ex_state True) =
     (Inr (True, new_Result\<lparr>trace_count := 1\<rparr>, 2, 1000),
      (ex_state True)\<lparr>calls := Call_reparse # completed_run_calls (ex_conf True) False empty_Trace
                                 @ [Call_sleepset_is_empty True, Call_reset True]\<rparr>) \<and>
   (999::int) < INT_MAX \<and> (999 + 1) mod 1000 = (0::int) \<and>
   reparse ex_collaborators (ex_state True) = (Inr (), (ex_state True)\<lparr>calls := [Call_reparse]\<rparr>)"
proof -
  have 1: "(999::int) < INT_MAX" by (simp add: INT_MAX_def)
  have 2: "reparse ex_collaborators (ex_state True) =
             (Inr (), (ex_state True)\<lparr>calls := [Call_reparse]\<rparr>)"
    by (simp add: reparse_def ex_state_def ex_collaborators_def log_def Let_def)
  note inst = reparse_before_every_1000th_run
    [where E = ex_collaborators and d = "ex_state True" and fuel = 5
       and result = "ex_result True" and d' = "(ex_state True)\<lparr>calls := ex_calls True\<rparr>"
       and res = new_Result and TB = 3 and cc = 999
       and r = "Inr (True, new_Result\<lparr>trace_count := 1\<rparr>, 2, 1000)"
       and x = "(True, new_Result\<lparr>trace_count := 1\<rparr>, 2, 1000)"
       and ?d1.0 = "(ex_state True)\<lparr>calls := Call_reparse
                        # completed_run_calls (ex_conf True) False empty_Trace
                        @ [Call_sleepset_is_empty True, Call_reset True]\<rparr>"
       and u = "Inr ()" and dr = "(ex_state True)\<lparr>calls := [Call_reparse]\<rparr>"]
  from inst ex_run [of True] ex_pass_1000 1 2 show ?thesis
    by (simp add: calls_since_def ex_state_def)
qed

subsection \<open>The loop follows reset, and ends\<close>

text \<open>
  C3. In an exploration that returns a Result, a run takes place at the start and after
  each \<open>reset\<close> that reported a new schedule, and at no other moment, and once \<open>reset\<close>
  has reported exhaustion there is neither a run nor a \<open>reset\<close> any more. The answer of
  \<open>run\<close> does not depend on the fuel, once there is enough of it. If \<open>reset\<close> reports
  exhaustion after \<open>n\<close> runs at the latest (no chain of \<open>n\<close> runs, each followed by a \<open>reset\<close>
  that answers true, starts from the trace builder that \<open>run\<close> creates), with \<open>n\<close> in the
  range of \<open>int\<close>, then \<open>run\<close> terminates within \<open>n\<close> passes of the loop, and not because a
  counter overflowed: it returns its Result or leaves with the exception of a pass.
\<close>

theorem run_follows_reset_and_terminates:
  "(run fuel E d = Some (Inr res, d') \<longrightarrow> well_scheduled Run_due (calls_since d d')) \<and>
   (run fuel E d = Some r \<and> fuel \<le> fuel' \<longrightarrow> run fuel' E d = Some r) \<and>
   ((\<forall>TB. (TB, new_TSOTraceBuilder E (conf d)) \<notin> next_schedule E d ^^ n) \<and>
    int n \<le> INT_MAX \<longrightarrow>
      (\<exists>a d2. run n E d = Some (a, d2) \<and> a \<noteq> Inl Signed_overflow))"
proof (intro conjI impI)
  assume "run fuel E d = Some (Inr res, d')"
  then show "well_scheduled Run_due (calls_since d d')"
  proof (cases rule: run_calls_since)
    case (returned res1 TB2 d1 d2 new)
    from run_loop_well_scheduled [OF returned(3)] returned(5) obtain p where
      "p \<noteq> Run_due" "\<forall>rest. well_scheduled Run_due (new @ rest) = well_scheduled p rest"
      by auto
    then have "well_scheduled Run_due (new @ [Call_reset_signal_handler, Call_delete_TB])"
      by simp
    with returned(7) show ?thesis by simp
  qed simp_all
next
  assume a: "run fuel E d = Some r \<and> fuel \<le> fuel'"
  then obtain k where k: "fuel' = fuel + k"
    using le_Suc_ex by blast
  from a show "run fuel' E d = Some r"
    unfolding run_def k
    by (auto simp: Let_def run_loop_fuel_mono split: MemoryModel.splits option.splits sum.splits prod.splits)
next
  assume h: "(\<forall>TB. (TB, new_TSOTraceBuilder E (conf d)) \<notin> next_schedule E d ^^ n) \<and>
             int n \<le> INT_MAX"
  let ?d1 = "(log [Call_new_TSOTraceBuilder, Call_setup_signal_handler] d)\<lparr>handler_installed := True\<rparr>"
  have "\<exists>r d2. run_loop n E (new_Result, new_TSOTraceBuilder E (conf d), 0) ?d1 = Some (r, d2) \<and>
                r \<noteq> Inl Signed_overflow"
    using h by (intro run_loop_within [where ?d0.0 = d]) (simp_all add: log_def new_Result_def)
  then obtain r d2 where
    r: "run_loop n E (new_Result, new_TSOTraceBuilder E (conf d), 0) ?d1 = Some (r, d2)"
      "r \<noteq> Inl Signed_overflow"
    by blast
  show "\<exists>a d2. run n E d = Some (a, d2) \<and> a \<noteq> Inl Signed_overflow"
  proof (cases "memory_model (conf d) = MM_UNDEF")
    case True
    then show ?thesis by (simp add: run_def)
  next
    case False
    with r show ?thesis
      unfolding run_def
      by (cases r; cases "memory_model (conf d)") (auto simp: Let_def)
  qed
qed

theorem run_follows_reset_and_terminates_witness:
  "run 5 ex_collaborators (ex_state True) =
     Some (Inr (ex_result True), (ex_state True)\<lparr>calls := ex_calls True\<rparr>) \<and>
   well_scheduled Run_due (ex_calls True) \<and>
   run 7 ex_collaborators (ex_state True) =
     Some (Inr (ex_result True), (ex_state True)\<lparr>calls := ex_calls True\<rparr>) \<and>
   (\<forall>TB. (TB, new_TSOTraceBuilder ex_collaborators (conf (ex_state True)))
           \<notin> next_schedule ex_collaborators (ex_state True) ^^ 4) \<and>
   int 4 \<le> INT_MAX \<and>
   (\<exists>a d2. run 4 ex_collaborators (ex_state True) = Some (a, d2) \<and> a \<noteq> Inl Signed_overflow) \<and>
   run 3 ex_collaborators (ex_state True) = None \<and>
   run 4 ex_endless_collaborators (ex_state True) = None"
proof -
  note inst = run_follows_reset_and_terminates
    [where E = ex_collaborators and d = "ex_state True" and fuel = 5 and fuel' = 7
       and res = "ex_result True" and d' = "(ex_state True)\<lparr>calls := ex_calls True\<rparr>"
       and r = "(Inr (ex_result True), (ex_state True)\<lparr>calls := ex_calls True\<rparr>)"
       and n = 4]
  have chain: "\<forall>TB. (TB, new_TSOTraceBuilder ex_collaborators (conf (ex_state True)))
                  \<notin> next_schedule ex_collaborators (ex_state True) ^^ 4"
  proof (intro allI notI)
    fix TB
    assume "(TB, new_TSOTraceBuilder ex_collaborators (conf (ex_state True)))
              \<in> next_schedule ex_collaborators (ex_state True) ^^ 4"
    from relpow_decreasing [OF this ex_next_schedule_less] show False
      by (simp add: ex_collaborators_def)
  qed
  have bound: "int 4 \<le> INT_MAX"
    by (simp add: INT_MAX_def)
  have short: "run 3 ex_collaborators (ex_state True) = None"
    by (simp add: run_def ex_state_def ex_conf_def ex_collaborators_def numeral_nat
      loop_pass_def run_once_def create_EE_def incr_def INT_MAX_def log_def new_Result_def Let_def
      has_errors_def res_has_errors_def empty_Trace_def ex_trace_def)
  have endless: "run 4 ex_endless_collaborators (ex_state True) = None"
    by (simp add: run_def ex_state_def ex_conf_def ex_collaborators_def ex_endless_collaborators_def
      numeral_nat loop_pass_def run_once_def create_EE_def incr_def INT_MAX_def log_def
      new_Result_def Let_def has_errors_def res_has_errors_def empty_Trace_def ex_trace_def)
  have "calls (ex_state True) = []"
    by (simp add: ex_state_def)
  with chain bound short endless show ?thesis
    using inst ex_run [of True] by (simp add: calls_since_def)
qed

end
